theory Spec2Isabelle
  imports Main
begin

section \<open>Data model of app\_playbg.c\<close>

text \<open>
  The module keeps one \<open>struct playbg_state\<close> per channel, stored in a datastore of the
  channel. Its C \<open>int\<close> fields are modelled as \<open>int\<close>. The two counters the generator
  accumulates, \<open>samples\<close> and \<open>sample_queue\<close>, have no bound in the code, so every
  addition and subtraction on them is written with the wrap-around of a 32-bit
  two's-complement \<open>int\<close> (\<open>int32\<close>), which is what the compiled module does.
  \<open>pos\<close> is incremented only after the seek step has brought it back inside the list, so
  it never exceeds \<open>nfiles + 1\<close>, and \<open>nfiles\<close> counts the names of the list; their
  increments are written without wrap-around.
  A \<open>char *\<close> that may be \<open>NULL\<close> is a \<open>string option\<close>.
\<close>

definition int32 :: "int \<Rightarrow> int" where
  "int32 x = (x + 2147483648) mod 4294967296 - 2147483648"

record playbg_state =
  filearray :: "string option list"
  pos :: int
  nfiles :: int
  origwfmt :: int
  samples :: int
  sample_queue :: int

text \<open>
  A frame as the module sees it: the module reads only \<open>f->samples\<close>. The two other
  fields identify the audio the frame carries (resource name and sample offset).
\<close>

record ast_frame =
  fsamples :: int
  fname :: string
  foffset :: int

text \<open>
  An open file stream: the name it was opened under, the reader of the resource (the
  sample count of the frame that starts at a sample offset, \<open>None\<close> at the end of the
  resource) and the current sample offset.
\<close>

record ast_filestream =
  sname :: string
  sread :: "int \<Rightarrow> int option"
  spos :: int

datatype ast_datastore = Datastore (data: "playbg_state option")

text \<open>The \<open>LOG_WARNING\<close> messages of the module, and the parameters they print.\<close>

datatype warning =
    NoStateFound
  | InvalidState
  | EmptyFile int
  | UnableToOpen string
  | FailedWrite
  | UnableToRestore int
  | NoDatastoreAlloc
  | NoStateAlloc
  | NoFileArrayAlloc

text \<open>
  What the module does to the outside, in order: warnings logged, and the calls to the
  stream and channel interface of the host.
\<close>

datatype event =
    Warn warning
  | Opened string
  | Sought string int
  | ReadFrame ast_frame
  | ReadEnd string
  | Closed string
  | Wrote ast_frame int
  | SetFormat int int
  | Destroyed

text \<open>
  The part of \<open>struct ast_channel\<close> the module touches: the datastore found under the
  key \<open>"playbg"\<close>, \<open>chan->stream\<close>, \<open>chan->writeformat\<close>, whether this module's generator
  is the active one (\<open>chan->generatordata\<close> is set), and the trace of events.
\<close>

record ast_channel =
  datastore :: "ast_datastore option"
  stream :: "ast_filestream option"
  writeformat :: int
  generatordata :: bool
  trace :: "event list"

text \<open>
  The host and the audio-stream collaborator are not part of the repository; their
  behaviour is a parameter of every function: which resources can be opened and what
  they hold, the result of writing a frame, the result of setting the write format, and
  which allocations succeed.
\<close>

record host =
  files :: "string \<Rightarrow> (int \<Rightarrow> int option) option"
  write_res :: "ast_frame \<Rightarrow> int"
  set_write_format_res :: "int \<Rightarrow> int"
  datastore_alloc_ok :: bool
  state_alloc_ok :: bool
  filearray_alloc_ok :: bool
  strdup_ok :: "string \<Rightarrow> bool"

section \<open>Channel helpers\<close>

definition emit :: "event \<Rightarrow> ast_channel \<Rightarrow> ast_channel" where
  "emit e c = c\<lparr>trace := trace c @ [e]\<rparr>"

definition ast_log :: "warning \<Rightarrow> ast_channel \<Rightarrow> ast_channel" where
  "ast_log w c = emit (Warn w) c"

text \<open>
  The lookup every function starts with: \<open>ast_channel_datastore_find\<close>, then
  \<open>datastore->data\<close>, each with its own warning when it is \<open>NULL\<close>.
\<close>

definition find_state :: "ast_channel \<Rightarrow> warning + playbg_state" where
  "find_state c =
     (case datastore c of
        None \<Rightarrow> Inl NoStateFound
      | Some ds \<Rightarrow> (case data ds of None \<Rightarrow> Inl InvalidState | Some st \<Rightarrow> Inr st))"

text \<open>
  An assignment through the pointer \<open>state\<close>: the state lives in the datastore, so the
  channel's datastore holds the updated state afterwards.
\<close>

definition upd_state :: "(playbg_state \<Rightarrow> playbg_state) \<Rightarrow> ast_channel \<Rightarrow> ast_channel" where
  "upd_state f c =
     (case find_state c of
        Inl _ \<Rightarrow> c
      | Inr st \<Rightarrow> c\<lparr>datastore := Some (Datastore (Some (f st)))\<rparr>)"

text \<open>\<open>if (chan->stream) { ast_closestream(chan->stream); chan->stream = NULL; }\<close>\<close>

definition close_stream :: "ast_channel \<Rightarrow> ast_channel" where
  "close_stream c =
     (case stream c of
        None \<Rightarrow> c
      | Some s \<Rightarrow> (emit (Closed (sname s)) c)\<lparr>stream := None\<rparr>)"

section \<open>The stream and channel interface of the host\<close>

text \<open>
  Modelled from the spec: \<open>ast_openstream_full\<close> (the spec's \<open>openResource\<close>), which is
  host code. It fails on a resource the host cannot open and otherwise installs a stream
  at offset 0 in \<open>chan->stream\<close>.
\<close>

definition ast_openstream_full :: "host \<Rightarrow> ast_channel \<Rightarrow> string \<Rightarrow> bool \<times> ast_channel" where
  "ast_openstream_full env c name =
     (case files env name of
        None \<Rightarrow> (False, c)
      | Some r \<Rightarrow> (True, (emit (Opened name) c)\<lparr>stream := Some \<lparr>sname = name, sread = r, spos = 0\<rparr>\<rparr>))"

text \<open>
  Modelled from the spec: \<open>ast_readframe\<close> on \<open>chan->stream\<close> (the spec's \<open>readFrame\<close>):
  the frame at the stream's offset, which then moves past it, or nothing at the end.
\<close>

definition ast_readframe :: "ast_channel \<Rightarrow> ast_frame option \<times> ast_channel" where
  "ast_readframe c =
     (case stream c of
        None \<Rightarrow> (None, c)
      | Some s \<Rightarrow>
          (case sread s (spos s) of
             None \<Rightarrow> (None, emit (ReadEnd (sname s)) c)
           | Some n \<Rightarrow>
               (let f = \<lparr>fsamples = n, fname = sname s, foffset = spos s\<rparr>
                in (Some f, (emit (ReadFrame f) c)\<lparr>stream := Some (s\<lparr>spos := spos s + n\<rparr>)\<rparr>))))"

text \<open>
  Modelled from the spec: \<open>ast_seekstream(chan->stream, off, SEEK_SET)\<close> (the spec's
  \<open>seek\<close>): the stream's offset becomes \<open>off\<close>.
\<close>

definition ast_seekstream :: "ast_channel \<Rightarrow> int \<Rightarrow> ast_channel" where
  "ast_seekstream c off =
     (case stream c of
        None \<Rightarrow> c
      | Some s \<Rightarrow> (emit (Sought (sname s) off) c)\<lparr>stream := Some (s\<lparr>spos := off\<rparr>)\<rparr>)"

text \<open>Modelled from the spec: \<open>ast_write\<close> (the spec's \<open>writeFrame\<close>); negative is failure.\<close>

definition ast_write :: "host \<Rightarrow> ast_channel \<Rightarrow> ast_frame \<Rightarrow> int \<times> ast_channel" where
  "ast_write env c f = (write_res env f, emit (Wrote f (write_res env f)) c)"

text \<open>
  Modelled from the spec: \<open>ast_set_write_format\<close> (the write format property of the
  channel); nonzero is failure, and the format changes on success only.
\<close>

definition ast_set_write_format :: "host \<Rightarrow> ast_channel \<Rightarrow> int \<Rightarrow> int \<times> ast_channel" where
  "ast_set_write_format env c fmt =
     (let r = set_write_format_res env fmt;
          c1 = emit (SetFormat fmt r) c
      in (r, if r = 0 then c1\<lparr>writeformat := fmt\<rparr> else c1))"

section \<open>The release hook\<close>

definition playbg_release :: "host \<Rightarrow> ast_channel option \<Rightarrow> ast_channel option" where
  "playbg_release env chan =
     (case chan of
        None \<Rightarrow> None
      | Some c \<Rightarrow>
          Some (case find_state c of
                  Inl w \<Rightarrow> ast_log w c
                | Inr st \<Rightarrow>
                    (let c1 = close_stream c
                     in if origwfmt st \<noteq> 0
                        then (case ast_set_write_format env c1 (origwfmt st) of
                                (r, c2) \<Rightarrow>
                                  if r \<noteq> 0 then ast_log (UnableToRestore (origwfmt st)) c2 else c2)
                        else c1)))"

section \<open>The seek step and the frame producer\<close>

text \<open>
  \<open>state->filearray[i]\<close>. The array is zero-filled by \<open>ast_calloc\<close>; a read outside the
  entries that were stored is modelled as reading a \<open>NULL\<close> entry.
\<close>

definition filearray_at :: "playbg_state \<Rightarrow> int \<Rightarrow> string option" where
  "filearray_at st i =
     (if 0 \<le> i \<and> nat i < length (filearray st) then filearray st ! nat i else None)"

definition playbg_seek :: "host \<Rightarrow> ast_channel \<Rightarrow> int \<times> ast_channel" where
  "playbg_seek env c =
     (case find_state c of
        Inl w \<Rightarrow> (- 1, ast_log w c)
      | Inr st \<Rightarrow>
          (let c1 = close_stream c;
               wrap = (nfiles st \<le> pos st);
               c2 = (if wrap then upd_state (\<lambda>s. s\<lparr>pos := 0\<rparr>) c1 else c1);
               curr_pos = (if wrap then 0 else pos st)
           in case filearray_at st curr_pos of
                None \<Rightarrow>
                  (- 1, upd_state (\<lambda>s. s\<lparr>pos := pos s + 1\<rparr>) (ast_log (EmptyFile curr_pos) c2))
              | Some name \<Rightarrow>
                  (case ast_openstream_full env c2 name of
                     (False, c3) \<Rightarrow>
                       (- 1, upd_state (\<lambda>s. s\<lparr>pos := pos s + 1\<rparr>) (ast_log (UnableToOpen name) c3))
                   | (True, c3) \<Rightarrow>
                       (0, if samples st \<noteq> 0 then ast_seekstream c3 (samples st) else c3))))"

text \<open>
  \<open>if (!playbg_seek(chan)) f = ast_readframe(chan->stream);\<close>, which \<open>playbg_readframe\<close>
  does twice.
\<close>

definition seek_then_read :: "host \<Rightarrow> ast_channel \<Rightarrow> ast_frame option \<times> ast_channel" where
  "seek_then_read env c =
     (case playbg_seek env c of
        (r, c1) \<Rightarrow> if r = 0 then ast_readframe c1 else (None, c1))"

definition playbg_readframe :: "host \<Rightarrow> ast_channel \<Rightarrow> ast_frame option \<times> ast_channel" where
  "playbg_readframe env c =
     (case (case stream c of None \<Rightarrow> (None, c) | Some _ \<Rightarrow> ast_readframe c) of
        (Some f, c1) \<Rightarrow> (Some f, c1)
      | (None, c1) \<Rightarrow>
          (case seek_then_read env c1 of
             (Some f, c2) \<Rightarrow> (Some f, c2)
           | (None, c2) \<Rightarrow>
               (case find_state c2 of
                  Inl w \<Rightarrow> (None, ast_log w c2)
                | Inr _ \<Rightarrow>
                    seek_then_read env
                      (upd_state (\<lambda>s. s\<lparr>samples := 0\<rparr>)
                        (upd_state (\<lambda>s. s\<lparr>pos := pos s + 1\<rparr>) c2)))))"

section \<open>The generator\<close>

text \<open>
  The \<open>while (state->sample_queue > 0)\<close> loop. It need not terminate (a resource may
  hold frames of no samples), so it is a partial function: \<open>None\<close> is "does not return".
  The second argument is the local \<open>res\<close>. The C loop reads the state through the pointer
  \<open>playbg_generator\<close> looked up before the loop; nothing inside the loop detaches the state
  (see \<open>evolves\<close> below), so the branch for a missing state is never taken from
  \<open>playbg_generator\<close>.
\<close>

partial_function (option) generator_loop ::
  "host \<Rightarrow> int \<Rightarrow> ast_channel \<Rightarrow> (int \<times> ast_channel) option" where
  "generator_loop env res c =
     (case find_state c of
        Inl _ \<Rightarrow> Some (res, c)
      | Inr st \<Rightarrow>
          if 0 < sample_queue st
          then (case playbg_readframe env c of
                  (None, c1) \<Rightarrow> Some (- 1, c1)
                | (Some f, c1) \<Rightarrow>
                    (case ast_write env
                            (upd_state (\<lambda>s. s\<lparr>sample_queue := int32 (sample_queue s - fsamples f)\<rparr>)
                              (upd_state (\<lambda>s. s\<lparr>samples := int32 (samples s + fsamples f)\<rparr>) c1)) f of
                       (r, c2) \<Rightarrow>
                         if r < 0 then Some (- 1, ast_log FailedWrite c2)
                         else generator_loop env r c2))
          else Some (res, c))"

declare generator_loop.simps [code]

definition playbg_generator ::
  "host \<Rightarrow> ast_channel \<Rightarrow> int \<Rightarrow> (int \<times> ast_channel) option" where
  "playbg_generator env c n =
     (case find_state c of
        Inl w \<Rightarrow> Some (- 1, ast_log w c)
      | Inr _ \<Rightarrow>
          generator_loop env 0 (upd_state (\<lambda>s. s\<lparr>sample_queue := int32 (sample_queue s + n)\<rparr>) c))"

section \<open>Generator activation\<close>

definition playbg_alloc :: "ast_channel \<Rightarrow> bool \<times> ast_channel" where
  "playbg_alloc c =
     (case datastore c of
        None \<Rightarrow> (False, ast_log NoStateFound c)
      | Some ds \<Rightarrow>
          (case data ds of
             None \<Rightarrow> (False, c)
           | Some _ \<Rightarrow> (True, upd_state (\<lambda>s. s\<lparr>origwfmt := writeformat c\<rparr>) c)))"

text \<open>
  Modelled from the spec: \<open>ast_deactivate_generator\<close> (the spec's \<open>deactivateGenerator\<close>),
  host code: it invokes the release hook of the active generator and unregisters it.
\<close>

definition ast_deactivate_generator :: "host \<Rightarrow> ast_channel \<Rightarrow> ast_channel" where
  "ast_deactivate_generator env c =
     (if generatordata c
      then (case playbg_release env (Some c) of
              None \<Rightarrow> c
            | Some c1 \<Rightarrow> c1\<lparr>generatordata := False\<rparr>)
      else c)"

text \<open>
  Modelled from the spec: \<open>ast_activate_generator\<close> with the callback set
  \<open>playbg_stream\<close> (the spec's \<open>activateGenerator\<close>), host code: a generator that is
  still active is released first, then \<open>alloc\<close> is called; the generator is registered
  when \<open>alloc\<close> returns its data, and the call fails otherwise.
\<close>

definition ast_activate_generator :: "host \<Rightarrow> ast_channel \<Rightarrow> int \<times> ast_channel" where
  "ast_activate_generator env c =
     (case playbg_alloc (ast_deactivate_generator env c) of
        (False, c1) \<Rightarrow> (- 1, c1)
      | (True, c1) \<Rightarrow> (0, c1\<lparr>generatordata := True\<rparr>))"

section \<open>Parsing the specification\<close>

text \<open>
  \<open>strsep(&s, "&")\<close> on a string that is not \<open>NULL\<close>: the token up to the first \<open>&\<close>, and
  what \<open>s\<close> points to afterwards (\<open>NULL\<close> when there was no delimiter).
\<close>

fun strsep :: "string \<Rightarrow> string \<times> string option" where
  "strsep [] = ([], None)"
| "strsep (ch # cs) =
     (if ch = CHR ''&'' then ([], Some cs)
      else (case strsep cs of (tok, rest) \<Rightarrow> (ch # tok, rest)))"

text \<open>\<open>while ((cur = strsep(&opt, "&"))) nfiles++;\<close>\<close>

function count_loop :: "string option \<Rightarrow> int \<Rightarrow> int" where
  "count_loop None n = n"
| "count_loop (Some s) n = count_loop (snd (strsep s)) (n + 1)"
  by pat_completeness auto
termination
proof (relation "measure (\<lambda>(p, n). case p of None \<Rightarrow> 0 | Some s \<Rightarrow> Suc (length s))")
  show "wf (measure (\<lambda>(p, n). case p of None \<Rightarrow> 0 | Some s \<Rightarrow> Suc (length s)))"
    by simp
next
  fix s :: string and n :: int
  have "case snd (strsep s) of None \<Rightarrow> True | Some r \<Rightarrow> length r < length s"
    by (induction s) (auto split: prod.splits option.splits)
  then show "((snd (strsep s), n + 1), (Some s, n))
      \<in> measure (\<lambda>(p, n). case p of None \<Rightarrow> 0 | Some s \<Rightarrow> Suc (length s))"
    by (auto split: option.splits)
qed

text \<open>\<open>ast_strdup\<close>: a copy of the string, or \<open>NULL\<close> when the allocation fails.\<close>

definition ast_strdup :: "host \<Rightarrow> string \<Rightarrow> string option" where
  "ast_strdup env s = (if strdup_ok env s then Some s else None)"

text \<open>
  \<open>while ((cur = strsep(&opt2, "&"))) { state->filearray[pos] = ast_strdup(cur); pos++; }\<close>
  on the zero-filled array. Both loops split the same string, so this one stores as many
  entries as the first one counted; the array, allocated with \<open>nfiles * MAX_PATH_LENGTH\<close>
  bytes, has room for them, and the model keeps its first \<open>nfiles\<close> entries.
\<close>

function fill_loop ::
  "host \<Rightarrow> string option \<Rightarrow> nat \<Rightarrow> string option list \<Rightarrow> string option list" where
  "fill_loop env None i arr = arr"
| "fill_loop env (Some s) i arr =
     fill_loop env (snd (strsep s)) (i + 1) (arr[i := ast_strdup env (fst (strsep s))])"
  by pat_completeness auto
termination
proof (relation "measure (\<lambda>(env, p, i, arr). case p of None \<Rightarrow> 0 | Some s \<Rightarrow> Suc (length s))")
  show "wf (measure (\<lambda>(env :: host, p, i :: nat, arr :: string option list).
      case p of None \<Rightarrow> 0 | Some s \<Rightarrow> Suc (length s)))"
    by simp
next
  fix env :: host and s :: string and i :: nat and arr :: "string option list"
  have "case snd (strsep s) of None \<Rightarrow> True | Some r \<Rightarrow> length r < length s"
    by (induction s) (auto split: prod.splits option.splits)
  then show "((env, snd (strsep s), i + 1, arr[i := ast_strdup env (fst (strsep s))]), (env, Some s, i, arr))
      \<in> measure (\<lambda>(env, p, i, arr). case p of None \<Rightarrow> 0 | Some s \<Rightarrow> Suc (length s))"
    by (auto split: option.splits)
qed

section \<open>Start, stop and resume\<close>

text \<open>
  \<open>playbg_state_destroy\<close>, the destroy callback of the datastore: it frees the file array
  and the state.
\<close>

definition playbg_state_destroy :: "ast_channel \<Rightarrow> ast_channel" where
  "playbg_state_destroy c = emit Destroyed c"

text \<open>
  Modelled from the spec: \<open>ast_channel_datastore_free\<close> (the spec's \<open>destroyAttachment\<close>),
  host code: it runs the destroy callback on the data of the datastore, when there is
  data.
\<close>

definition ast_channel_datastore_free :: "ast_datastore \<Rightarrow> ast_channel \<Rightarrow> ast_channel" where
  "ast_channel_datastore_free ds c =
     (case data ds of None \<Rightarrow> c | Some _ \<Rightarrow> playbg_state_destroy c)"

text \<open>
  The teardown both \<open>playbg_start\<close> (on an existing datastore) and \<open>playbg_stop\<close> perform:
  remove the datastore from the channel, free it, deactivate the generator, close the
  stream.
\<close>

definition remove_playbg :: "host \<Rightarrow> ast_datastore \<Rightarrow> ast_channel \<Rightarrow> ast_channel" where
  "remove_playbg env ds c =
     close_stream
       (ast_deactivate_generator env
         (ast_channel_datastore_free ds (c\<lparr>datastore := None\<rparr>)))"

definition playbg_start :: "host \<Rightarrow> ast_channel \<Rightarrow> string option \<Rightarrow> int \<times> ast_channel" where
  "playbg_start env c opts =
     (case opts of
        None \<Rightarrow> (- 1, c)
      | Some s \<Rightarrow>
          if s = [] then (- 1, c)
          else
            (let n = (if CHR ''&'' \<in> set s then count_loop (Some s) 0 else 1)
             in if n < 1 then (- 1, c)
                else
                  (let c1 = (case datastore c of None \<Rightarrow> c | Some ds \<Rightarrow> remove_playbg env ds c)
                   in if \<not> datastore_alloc_ok env then (- 1, ast_log NoDatastoreAlloc c1)
                      else if \<not> state_alloc_ok env then (- 1, ast_log NoStateAlloc c1)
                      else if \<not> filearray_alloc_ok env then (- 1, ast_log NoFileArrayAlloc c1)
                      else
                        (let arr0 = replicate (nat n) None;
                             arr = (if CHR ''&'' \<in> set s then fill_loop env (Some s) 0 arr0
                                    else arr0[0 := ast_strdup env s]);
                             st = \<lparr>filearray = arr, pos = 0, nfiles = n,
                                   origwfmt = writeformat c1, samples = 0, sample_queue = 0\<rparr>
                         in ast_activate_generator env
                              (c1\<lparr>datastore := Some (Datastore (Some st))\<rparr>)))))"

definition playbg_stop :: "host \<Rightarrow> ast_channel \<Rightarrow> ast_channel" where
  "playbg_stop env c =
     (case datastore c of
        None \<Rightarrow> ast_log NoStateFound c
      | Some ds \<Rightarrow>
          (case data ds of
             None \<Rightarrow> ast_log InvalidState c
           | Some _ \<Rightarrow> remove_playbg env ds c))"

definition playbg_exec_stop :: "host \<Rightarrow> ast_channel \<Rightarrow> int \<times> ast_channel" where
  "playbg_exec_stop env c = (0, playbg_stop env c)"

definition playbg_exec_start :: "host \<Rightarrow> ast_channel \<Rightarrow> string option \<Rightarrow> int \<times> ast_channel" where
  "playbg_exec_start env c dat =
     (case dat of
        None \<Rightarrow> (- 1, c)
      | Some s \<Rightarrow> if length s = 0 then (- 1, c) else playbg_start env c (Some s))"


section \<open>Example hosts and channels\<close>

text \<open>
  A resource of \<open>len\<close> samples that is read in frames of at most \<open>fsz\<close> samples, a host
  whose resources are of that kind (frames of 20 samples) and that never fails, and
  channels without and with a playback state.
\<close>

definition pcm :: "int \<Rightarrow> int \<Rightarrow> int \<Rightarrow> int option" where
  "pcm len fsz p = (if 0 \<le> p \<and> p < len then Some (min fsz (len - p)) else None)"

definition demo_host :: "(string \<times> int) list \<Rightarrow> host" where
  "demo_host fs =
     \<lparr>files = (\<lambda>name. map_option (\<lambda>len. pcm len 20) (map_of fs name)),
      write_res = (\<lambda>f. 0),
      set_write_format_res = (\<lambda>fmt. 0),
      datastore_alloc_ok = True,
      state_alloc_ok = True,
      filearray_alloc_ok = True,
      strdup_ok = (\<lambda>s. True)\<rparr>"

definition idle_channel :: ast_channel where
  "idle_channel =
     \<lparr>datastore = None, stream = None, writeformat = 64, generatordata = False, trace = []\<rparr>"

definition demo_state :: playbg_state where
  "demo_state =
     \<lparr>filearray = [Some ''a'', Some ''b''], pos = 1, nfiles = 2, origwfmt = 4,
      samples = 40, sample_queue = 0\<rparr>"

definition playing_channel :: ast_channel where
  "playing_channel =
     \<lparr>datastore = Some (Datastore (Some demo_state)),
      stream = Some \<lparr>sname = ''b'', sread = pcm 100 20, spos = 40\<rparr>,
      writeformat = 64, generatordata = True, trace = []\<rparr>"

section \<open>The specification's reading of a resource list\<close>

text \<open>
  The spec describes the argument of Start as resource names joined by \<open>&\<close>. This is
  that description, written from the spec's words, to compare with what \<open>playbg_start\<close>
  parses.
\<close>

fun join_amp :: "string list \<Rightarrow> string" where
  "join_amp [] = []"
| "join_amp [x] = x"
| "join_amp (x # y # ys) = x @ CHR ''&'' # join_amp (y # ys)"

section \<open>Observations and invariants\<close>

text \<open>
  What the theorems below speak about: the samples of the frames written in a trace, the
  events a call added, what a frame request may change (\<open>evolves\<close>: it writes no frame
  and leaves the queue, the file list and the saved format alone), resources whose frames
  all hold at least one sample and no more than a C \<open>int\<close> can count, the bookkeeping
  the generator does for a frame (\<open>account\<close>), the seek calls in a trace (\<open>sought\<close>),
  and the invariant of the index (\<open>index_inv\<close>).
\<close>

fun wrote_samples :: "event list \<Rightarrow> int" where
  "wrote_samples [] = 0"
| "wrote_samples (Wrote f r # es) = fsamples f + wrote_samples es"
| "wrote_samples (e # es) = wrote_samples es"

fun sought :: "event list \<Rightarrow> (string \<times> int) list" where
  "sought [] = []"
| "sought (Sought name off # es) = (name, off) # sought es"
| "sought (e # es) = sought es"

definition new_events :: "ast_channel \<Rightarrow> ast_channel \<Rightarrow> event list" where
  "new_events c c' = drop (length (trace c)) (trace c')"

definition same_lists :: "playbg_state \<Rightarrow> playbg_state \<Rightarrow> bool" where
  "same_lists st st' \<longleftrightarrow>
     filearray st' = filearray st \<and> nfiles st' = nfiles st \<and> origwfmt st' = origwfmt st \<and>
     sample_queue st' = sample_queue st"

definition evolves :: "ast_channel \<Rightarrow> ast_channel \<Rightarrow> bool" where
  "evolves c c' \<longleftrightarrow>
     (\<exists>es. trace c' = trace c @ es \<and> wrote_samples es = 0) \<and>
     writeformat c' = writeformat c \<and> generatordata c' = generatordata c \<and>
     (case find_state c of
        Inl w \<Rightarrow> find_state c' = Inl w
      | Inr st \<Rightarrow> (\<exists>st'. find_state c' = Inr st' \<and> same_lists st st'))"

definition host_frames_ok :: "host \<Rightarrow> bool" where
  "host_frames_ok env \<longleftrightarrow>
     (\<forall>name r p n. files env name = Some r \<longrightarrow> r p = Some n \<longrightarrow> 0 < n \<and> n \<le> 2147483647)"

definition stream_frames_ok :: "ast_channel \<Rightarrow> bool" where
  "stream_frames_ok c \<longleftrightarrow>
     (\<forall>s p n. stream c = Some s \<longrightarrow> sread s p = Some n \<longrightarrow> 0 < n \<and> n \<le> 2147483647)"

definition account :: "ast_frame \<Rightarrow> ast_channel \<Rightarrow> ast_channel" where
  "account f c =
     upd_state (\<lambda>s. s\<lparr>samples := int32 (samples s + fsamples f),
                     sample_queue := int32 (sample_queue s - fsamples f)\<rparr>) c"

definition index_inv :: "ast_channel \<Rightarrow> bool" where
  "index_inv c \<longleftrightarrow>
     (case find_state c of
        Inl _ \<Rightarrow> True
      | Inr st \<Rightarrow>
          0 \<le> pos st \<and> 1 \<le> nfiles st \<and>
          (nfiles st \<le> pos st \<longrightarrow> samples st = 0 \<and> stream c = None))"

definition state_field :: "(playbg_state \<Rightarrow> 'a) \<Rightarrow> ast_channel \<Rightarrow> 'a option" where
  "state_field f c = (case find_state c of Inl _ \<Rightarrow> None | Inr st \<Rightarrow> Some (f st))"

section \<open>Runs of the generator\<close>

text \<open>
  Start on an idle channel, a sequence of generator invocations (with the result and the
  index after each), and the state in which the only entry of the list cannot be read.
\<close>

definition start_on :: "host \<Rightarrow> string \<Rightarrow> ast_channel" where
  "start_on env spec = snd (playbg_exec_start env idle_channel (Some spec))"

fun run_generator ::
  "host \<Rightarrow> ast_channel \<Rightarrow> int list \<Rightarrow> ((int \<times> int option) list \<times> ast_channel) option" where
  "run_generator env c [] = Some ([], c)"
| "run_generator env c (n # ns) =
     (case playbg_generator env c n of
        None \<Rightarrow> None
      | Some (r, c1) \<Rightarrow>
          (case run_generator env c1 ns of
             None \<Rightarrow> None
           | Some (rs, c2) \<Rightarrow> Some ((r, state_field pos c1) # rs, c2)))"

text \<open>
  The head of the \<open>while\<close> loop of \<open>playbg_generator\<close> after \<open>k\<close> passes of its body
  that each obtained a frame and wrote it: the local \<open>res\<close> and the channel there. It is
  \<open>None\<close> when the loop has ended before the \<open>k\<close>-th pass was complete, by its condition
  or by one of its two \<open>return -1\<close>.
\<close>

fun loop_head :: "host \<Rightarrow> nat \<Rightarrow> int \<Rightarrow> ast_channel \<Rightarrow> (int \<times> ast_channel) option" where
  "loop_head env 0 res c = Some (res, c)"
| "loop_head env (Suc k) res c =
     (case find_state c of
        Inl _ \<Rightarrow> None
      | Inr st \<Rightarrow>
          if 0 < sample_queue st
          then (case playbg_readframe env c of
                  (None, c1) \<Rightarrow> None
                | (Some f, c1) \<Rightarrow>
                    (case ast_write env
                            (upd_state (\<lambda>s. s\<lparr>sample_queue := int32 (sample_queue s - fsamples f)\<rparr>)
                              (upd_state (\<lambda>s. s\<lparr>samples := int32 (samples s + fsamples f)\<rparr>) c1)) f of
                       (r, c2) \<Rightarrow> if r < 0 then None else loop_head env k r c2))
          else None)"

text \<open>
  How the loop ends at a loop head: by its condition, with the \<open>res\<close> of the head, or by
  \<open>return -1\<close> when the frame producer yields no frame or the write of the frame fails.
\<close>

definition burst_end :: "host \<Rightarrow> int \<Rightarrow> ast_channel \<Rightarrow> int \<times> ast_channel \<Rightarrow> bool" where
  "burst_end env r ch y \<longleftrightarrow>
     (case find_state ch of
        Inl _ \<Rightarrow> y = (r, ch)
      | Inr sth \<Rightarrow>
          if 0 < sample_queue sth
          then (case playbg_readframe env ch of
                  (None, c1) \<Rightarrow> y = (- 1, c1)
                | (Some f, c1) \<Rightarrow>
                    write_res env f < 0 \<and>
                    y = (- 1, (account f c1)
                           \<lparr>trace := trace c1 @ [Wrote f (write_res env f), Warn FailedWrite]\<rparr>))
          else y = (r, ch))"

definition unreadable_warning :: "playbg_state \<Rightarrow> warning" where
  "unreadable_warning st =
     (case filearray_at st 0 of None \<Rightarrow> EmptyFile 0 | Some name \<Rightarrow> UnableToOpen name)"

definition single_unreadable :: "host \<Rightarrow> ast_channel \<Rightarrow> bool" where
  "single_unreadable env c \<longleftrightarrow>
     stream c = None \<and>
     (case find_state c of
        Inl _ \<Rightarrow> False
      | Inr st \<Rightarrow>
          nfiles st = 1 \<and> 0 \<le> pos st \<and> 0 \<le> sample_queue st \<and>
          (case filearray_at st 0 of None \<Rightarrow> True | Some name \<Rightarrow> files env name = None))"

section \<open>Playable lists\<close>

text \<open>
  A resource of a given duration, a sample count that a C \<open>int\<close> can hold (the generator
  is asked for it as an \<open>int\<close>): from every offset before its end it yields a frame of at
  least one sample that stays within the duration, and nothing from the end on. A list is
  playable when every name opens such a resource. \<open>opened\<close> lists the resources a trace
  opened, in order.
\<close>

definition resource_of :: "(int \<Rightarrow> int option) \<Rightarrow> int \<Rightarrow> bool" where
  "resource_of rd len \<longleftrightarrow>
     0 < len \<and> len \<le> 2147483647 \<and>
     (\<forall>p. (0 \<le> p \<and> p < len \<longrightarrow> (\<exists>n. rd p = Some n \<and> 0 < n \<and> p + n \<le> len)) \<and>
          (len \<le> p \<longrightarrow> rd p = None))"

definition playable :: "host \<Rightarrow> string list \<Rightarrow> int list \<Rightarrow> bool" where
  "playable env ns ds \<longleftrightarrow>
     length ds = length ns \<and>
     (\<forall>i<length ns. \<exists>rd. files env (ns ! i) = Some rd \<and> resource_of rd (ds ! i))"

fun opened :: "event list \<Rightarrow> string list" where
  "opened [] = []"
| "opened (Opened name # es) = name # opened es"
| "opened (e # es) = opened es"

text \<open>
  \<open>finished\<close>: the last invocation played resource \<open>j\<close> to its end and left its stream
  open there. \<open>fresh\<close>: the state right after Start, nothing read yet.
\<close>

definition finished :: "host \<Rightarrow> string list \<Rightarrow> int list \<Rightarrow> nat \<Rightarrow> ast_channel \<Rightarrow> bool" where
  "finished env ns ds j c \<longleftrightarrow>
     (case find_state c of
        Inl _ \<Rightarrow> False
      | Inr st \<Rightarrow>
          filearray st = map Some ns \<and> nfiles st = int (length ns) \<and> pos st = int j \<and>
          samples st = ds ! j \<and> sample_queue st = 0 \<and>
          (case files env (ns ! j) of
             None \<Rightarrow> False
           | Some rd \<Rightarrow> stream c = Some \<lparr>sname = ns ! j, sread = rd, spos = ds ! j\<rparr>))"

definition fresh :: "string list \<Rightarrow> ast_channel \<Rightarrow> bool" where
  "fresh ns c \<longleftrightarrow>
     stream c = None \<and>
     (case find_state c of
        Inl _ \<Rightarrow> False
      | Inr st \<Rightarrow>
          filearray st = map Some ns \<and> nfiles st = int (length ns) \<and> pos st = 0 \<and>
          samples st = 0 \<and> sample_queue st = 0)"

section \<open>Basic facts\<close>

lemma find_state_emit [simp]: "find_state (emit e c) = find_state c"
  by (simp add: find_state_def emit_def)

lemma find_state_updates [simp]:
  "find_state (c\<lparr>trace := t\<rparr>) = find_state c"
  "find_state (c\<lparr>stream := s\<rparr>) = find_state c"
  "find_state (c\<lparr>writeformat := w\<rparr>) = find_state c"
  "find_state (c\<lparr>generatordata := g\<rparr>) = find_state c"
  by (simp_all add: find_state_def)

lemma find_state_ast_log [simp]: "find_state (ast_log w c) = find_state c"
  by (simp add: ast_log_def)

lemma find_state_close_stream [simp]: "find_state (close_stream c) = find_state c"
  by (simp add: close_stream_def find_state_def emit_def split: option.splits)

lemma datastore_close_stream [simp]: "datastore (close_stream c) = datastore c"
  by (simp add: close_stream_def emit_def split: option.splits)

lemma stream_close_stream [simp]: "stream (close_stream c) = None"
  by (simp add: close_stream_def emit_def split: option.splits)

lemma writeformat_close_stream [simp]: "writeformat (close_stream c) = writeformat c"
  by (simp add: close_stream_def emit_def split: option.splits)

lemma generatordata_close_stream [simp]: "generatordata (close_stream c) = generatordata c"
  by (simp add: close_stream_def emit_def split: option.splits)

lemma trace_close_stream:
  "trace (close_stream c) = trace c @ (case stream c of None \<Rightarrow> [] | Some s \<Rightarrow> [Closed (sname s)])"
  by (simp add: close_stream_def emit_def split: option.splits)

lemma release_cases:
  "playbg_release env (Some c) =
     Some (case find_state c of
             Inl w \<Rightarrow> c\<lparr>trace := trace c @ [Warn w]\<rparr>
           | Inr st \<Rightarrow>
               if origwfmt st = 0 then close_stream c
               else if set_write_format_res env (origwfmt st) = 0
                 then (close_stream c)\<lparr>trace := trace (close_stream c) @ [SetFormat (origwfmt st) 0],
                        writeformat := origwfmt st\<rparr>
                 else (close_stream c)\<lparr>trace := trace (close_stream c) @
                        [SetFormat (origwfmt st) (set_write_format_res env (origwfmt st)),
                         Warn (UnableToRestore (origwfmt st))]\<rparr>)"
  by (simp add: playbg_release_def ast_log_def emit_def ast_set_write_format_def Let_def
      split: sum.splits)

lemma datastore_release:
  "playbg_release env (Some c) = Some c' \<Longrightarrow> datastore c' = datastore c"
  by (auto simp: release_cases split: sum.splits if_splits)

section \<open>The release hook keeps the state\<close>




text \<open>
  Claim C10. The release hook asks the host to set the write format only when the saved
  \<open>origwfmt\<close> is nonzero: with a saved format of 0 the channel's write format is
  unchanged and no format change is requested, and every format change the hook requests
  is for the nonzero \<open>origwfmt\<close> of the attached state.
\<close>

theorem release_restores_nonzero_only:
  "\<exists>c'. playbg_release env (Some c) = Some c' \<and>
     (\<forall>st. find_state c = Inr st \<and> origwfmt st = 0 \<longrightarrow>
        writeformat c' = writeformat c \<and>
        (\<forall>f r. SetFormat f r \<notin> set (drop (length (trace c)) (trace c')))) \<and>
     (\<forall>f r. SetFormat f r \<in> set (drop (length (trace c)) (trace c')) \<longrightarrow>
        f \<noteq> 0 \<and> (\<exists>st. find_state c = Inr st \<and> origwfmt st = f))"
  by (auto simp: release_cases trace_close_stream split: sum.splits if_splits option.splits)

theorem release_restores_nonzero_only_witness:
  "find_state (upd_state (\<lambda>s. s\<lparr>origwfmt := 0\<rparr>) playing_channel) = Inr (demo_state\<lparr>origwfmt := 0\<rparr>) \<and>
   origwfmt (demo_state\<lparr>origwfmt := 0\<rparr>) = 0 \<and>
   (\<exists>c'. playbg_release (demo_host []) (Some (upd_state (\<lambda>s. s\<lparr>origwfmt := 0\<rparr>) playing_channel)) = Some c' \<and>
      writeformat c' = 64 \<and> trace c' = [Closed ''b'']) \<and>
   (\<exists>c'. playbg_release (demo_host []) (Some playing_channel) = Some c' \<and>
      SetFormat 4 0 \<in> set (drop (length (trace playing_channel)) (trace c')) \<and>
      find_state playing_channel = Inr demo_state \<and> origwfmt demo_state = 4)"
proof -
  let ?c = "upd_state (\<lambda>s. s\<lparr>origwfmt := 0\<rparr>) playing_channel"
  have h1: "find_state ?c = Inr (demo_state\<lparr>origwfmt := 0\<rparr>)"
    by (simp add: find_state_def upd_state_def playing_channel_def)
  have h2: "writeformat ?c = 64" "trace ?c = []"
    by (simp_all add: find_state_def upd_state_def playing_channel_def)
  have h3: "playbg_release (demo_host []) (Some ?c) =
      Some (?c\<lparr>stream := None, trace := [Closed ''b'']\<rparr>)"
    by (simp add: release_cases h1 close_stream_def)
       (simp add: find_state_def upd_state_def playing_channel_def emit_def close_stream_def)
  from release_restores_nonzero_only [of "demo_host []" ?c] h1 h2 h3
  have a: "\<exists>c'. playbg_release (demo_host []) (Some ?c) = Some c' \<and>
      writeformat c' = 64 \<and> trace c' = [Closed ''b'']"
    by auto
  have p1: "find_state playing_channel = Inr demo_state" "trace playing_channel = []"
    by (simp_all add: find_state_def playing_channel_def)
  have p2: "origwfmt demo_state = 4" by (simp add: demo_state_def)
  have p3: "playbg_release (demo_host []) (Some playing_channel) =
      Some (playing_channel\<lparr>stream := None, trace := [Closed ''b'', SetFormat 4 0],
              writeformat := 4\<rparr>)"
    by (simp add: release_cases p1 p2 close_stream_def)
       (simp add: playing_channel_def emit_def demo_host_def close_stream_def)
  from release_restores_nonzero_only [of "demo_host []" playing_channel] p1 p2 p3
  have b: "\<exists>c'. playbg_release (demo_host []) (Some playing_channel) = Some c' \<and>
      SetFormat 4 0 \<in> set (drop (length (trace playing_channel)) (trace c')) \<and>
      find_state playing_channel = Inr demo_state \<and> origwfmt demo_state = 4"
    by auto
  from h1 a b show ?thesis by simp
qed

lemma datastore_deactivate [simp]:
  "datastore (ast_deactivate_generator env c) = datastore c"
  by (auto simp: ast_deactivate_generator_def release_cases split: sum.splits if_splits)

lemma datastore_remove_playbg [simp]: "datastore (remove_playbg env ds c) = None"
  by (simp add: remove_playbg_def ast_channel_datastore_free_def playbg_state_destroy_def
      emit_def split: option.splits)

lemma find_state_no_datastore: "datastore c = None \<Longrightarrow> find_state c = Inl NoStateFound"
  by (simp add: find_state_def)

lemma stop_no_state: "find_state c = Inl w \<Longrightarrow> playbg_stop env c = ast_log w c"
  by (auto simp: playbg_stop_def find_state_def split: option.splits)

lemma stop_state:
  "find_state c = Inr st \<Longrightarrow> playbg_stop env c = remove_playbg env (Datastore (Some st)) c"
  by (cases "datastore c"; cases "the (datastore c)")
     (auto simp: playbg_stop_def find_state_def split: option.splits)

section \<open>Stop without an attachment\<close>

text \<open>
  Claim C8. Stop on a channel with no attachment returns 0 (no error) and changes
  nothing on the channel but the log, which receives the missing-state warning. A second
  Stop in a row, after any first Stop, likewise returns 0 and only logs a warning.
\<close>

theorem stop_without_attachment:
  "(datastore c = None \<longrightarrow>
      playbg_exec_stop env c = (0, c\<lparr>trace := trace c @ [Warn NoStateFound]\<rparr>)) \<and>
   (\<exists>w. playbg_exec_stop env (snd (playbg_exec_stop env c)) =
      (0, (snd (playbg_exec_stop env c))
            \<lparr>trace := trace (snd (playbg_exec_stop env c)) @ [Warn w]\<rparr>))"
proof (cases "find_state c")
  case (Inl w)
  then have "find_state (ast_log w c) = Inl w" by simp
  with Inl show ?thesis
    by (auto simp: playbg_exec_stop_def stop_no_state ast_log_def emit_def
        find_state_no_datastore)
next
  case (Inr st)
  then have "datastore c \<noteq> None" by (auto simp: find_state_def split: option.splits)
  moreover have "find_state (remove_playbg env (Datastore (Some st)) c) = Inl NoStateFound"
    by (simp add: find_state_no_datastore)
  ultimately show ?thesis using Inr
    by (auto simp: playbg_exec_stop_def stop_state stop_no_state ast_log_def emit_def)
qed

theorem stop_without_attachment_witness:
  "datastore idle_channel = None \<and>
   playbg_exec_stop (demo_host []) idle_channel =
     (0, idle_channel\<lparr>trace := [Warn NoStateFound]\<rparr>)"
proof -
  have h: "datastore idle_channel = None" "trace idle_channel = []"
    by (simp_all add: idle_channel_def)
  from stop_without_attachment [of idle_channel "demo_host []"] h
  show ?thesis by simp
qed

section \<open>Parsing facts\<close>

lemma strsep_plain: "CHR ''&'' \<notin> set x \<Longrightarrow> strsep x = (x, None)"
  by (induction x) auto

lemma strsep_delim: "CHR ''&'' \<notin> set x \<Longrightarrow> strsep (x @ CHR ''&'' # ys) = (x, Some ys)"
  by (induction x) auto

lemma strsep_join:
  "CHR ''&'' \<notin> set x \<Longrightarrow>
   strsep (join_amp (x # xs)) = (x, if xs = [] then None else Some (join_amp xs))"
  by (cases xs) (simp_all add: strsep_plain strsep_delim)

lemma count_loop_join:
  "ns \<noteq> [] \<Longrightarrow> \<forall>x\<in>set ns. CHR ''&'' \<notin> set x \<Longrightarrow>
   count_loop (Some (join_amp ns)) k = k + int (length ns)"
proof (induction ns arbitrary: k)
  case Nil
  then show ?case by simp
next
  case (Cons x xs)
  show ?case
  proof (cases xs)
    case Nil
    with Cons.prems show ?thesis by (simp add: strsep_plain)
  next
    case (Cons y ys)
    with Cons.prems Cons.IH [of "k + 1"] show ?thesis
      by (simp add: strsep_delim)
  qed
qed

lemma fill_loop_join:
  "ns \<noteq> [] \<Longrightarrow> \<forall>x\<in>set ns. CHR ''&'' \<notin> set x \<Longrightarrow> i + length ns \<le> length arr \<Longrightarrow>
   fill_loop env (Some (join_amp ns)) i arr =
     take i arr @ map (ast_strdup env) ns @ drop (i + length ns) arr"
proof (induction ns arbitrary: i arr)
  case Nil
  then show ?case by simp
next
  case (Cons x xs)
  show ?case
  proof (cases xs)
    case Nil
    with Cons.prems show ?thesis
      by (simp add: strsep_plain upd_conv_take_nth_drop)
  next
    case (Cons y ys)
    have "fill_loop env (Some (join_amp (x # xs))) i arr =
        fill_loop env (Some (join_amp xs)) (i + 1) (arr[i := ast_strdup env x])"
      using Cons Cons.prems by (simp add: strsep_delim)
    also have "\<dots> = take (i + 1) (arr[i := ast_strdup env x]) @ map (ast_strdup env) xs @
        drop (i + 1 + length xs) (arr[i := ast_strdup env x])"
      using Cons Cons.prems by (intro Cons.IH) auto
    also have "\<dots> = take i arr @ map (ast_strdup env) (x # xs) @ drop (i + length (x # xs)) arr"
      using Cons.prems by (simp add: take_Suc_conv_app_nth)
    finally show ?thesis .
  qed
qed

lemma short_list: "(ns :: string list) \<noteq> [] \<Longrightarrow> \<not> 2 \<le> length ns \<Longrightarrow> \<exists>x. ns = [x]"
  by (cases ns rule: join_amp.cases) auto

lemma amp_in_join:
  "\<forall>x\<in>set ns. CHR ''&'' \<notin> set x \<Longrightarrow> CHR ''&'' \<in> set (join_amp ns) \<longleftrightarrow> 2 \<le> length ns"
  by (induction ns rule: join_amp.induct) auto

lemma find_state_upd_state [simp]:
  "find_state (upd_state f c) = map_sum id f (find_state c)"
  by (simp add: upd_state_def find_state_def split: option.splits sum.splits)

lemma upd_state_fields [simp]:
  "stream (upd_state f c) = stream c"
  "writeformat (upd_state f c) = writeformat c"
  "generatordata (upd_state f c) = generatordata c"
  "trace (upd_state f c) = trace c"
  by (simp_all add: upd_state_def split: sum.splits)

lemma find_state_deactivate [simp]:
  "find_state (ast_deactivate_generator env c) = find_state c"
  by (simp add: find_state_def)


lemma stream_deactivate:
  "stream c = None \<Longrightarrow> stream (ast_deactivate_generator env c) = None"
  by (simp add: ast_deactivate_generator_def release_cases split: sum.splits)

lemma activate_state:
  assumes "find_state c = Inr st"
  shows "\<exists>c'. ast_activate_generator env c = (0, c') \<and> generatordata c' \<and>
           find_state c' = Inr (st\<lparr>origwfmt := writeformat c'\<rparr>) \<and>
           writeformat c' = writeformat (ast_deactivate_generator env c) \<and>
           stream c' = stream (ast_deactivate_generator env c)"
proof -
  let ?d = "ast_deactivate_generator env c"
  have "find_state ?d = Inr st" using assms by simp
  then have "playbg_alloc ?d = (True, upd_state (\<lambda>s. s\<lparr>origwfmt := writeformat ?d\<rparr>) ?d)"
    by (auto simp: playbg_alloc_def find_state_def split: option.splits)
  with \<open>find_state ?d = Inr st\<close> show ?thesis
    by (simp add: ast_activate_generator_def)
qed

lemma find_state_set_datastore [simp]:
  "find_state (c\<lparr>datastore := Some (Datastore (Some st))\<rparr>) = Inr st"
  by (simp add: find_state_def)

lemma writeformat_remove_playbg [simp]:
  "writeformat (remove_playbg env ds c) = writeformat c"
  by (simp add: remove_playbg_def ast_channel_datastore_free_def playbg_state_destroy_def
      ast_deactivate_generator_def split: option.splits add:
      release_cases find_state_def emit_def)

lemma start_accepted:
  assumes ne: "ns \<noteq> []" and names: "\<forall>x\<in>set ns. CHR ''&'' \<notin> set x \<and> strdup_ok env x"
    and nonempty: "join_amp ns \<noteq> []"
    and allocs: "datastore_alloc_ok env" "state_alloc_ok env" "filearray_alloc_ok env"
  shows "\<exists>c'. playbg_exec_start env c (Some (join_amp ns)) = (0, c') \<and>
       find_state c' =
         Inr \<lparr>filearray = map Some ns, pos = 0, nfiles = int (length ns),
              origwfmt = writeformat c', samples = 0, sample_queue = 0\<rparr> \<and>
       (stream c = None \<longrightarrow> stream c' = None)"
proof -
  let ?s = "join_amp ns"
  let ?c1 = "case datastore c of None \<Rightarrow> c | Some ds \<Rightarrow> remove_playbg env ds c"
  let ?st = "\<lparr>filearray = map Some ns, pos = 0, nfiles = int (length ns),
              origwfmt = writeformat ?c1, samples = 0, sample_queue = 0\<rparr>"
  let ?c2 = "?c1\<lparr>datastore := Some (Datastore (Some ?st))\<rparr>"
  have amp: "\<forall>x\<in>set ns. CHR ''&'' \<notin> set x" using names by blast
  have dup: "map (ast_strdup env) ns = map Some ns"
    using names by (simp add: ast_strdup_def)
  have start: "playbg_exec_start env c (Some ?s) = ast_activate_generator env ?c2"
  proof (cases "2 \<le> length ns")
    case True
    then have in_amp: "CHR ''&'' \<in> set ?s"
      using amp_in_join [OF amp] by simp
    have cnt: "count_loop (Some ?s) 0 = int (length ns)"
      using count_loop_join [OF ne amp, of 0] by simp
    have fill: "fill_loop env (Some ?s) 0 (replicate (length ns) None) = map Some ns"
      using fill_loop_join [OF ne amp, of 0 "replicate (length ns) None" env] dup by simp
    show ?thesis
      using nonempty allocs ne
      by (simp add: playbg_exec_start_def playbg_start_def Let_def in_amp cnt fill
          del: count_loop.simps fill_loop.simps)
  next
    case False
    with ne obtain x where x: "ns = [x]" using short_list by blast
    then have no_amp: "CHR ''&'' \<notin> set ?s" using amp by simp
    show ?thesis
      using nonempty allocs names
      by (simp add: playbg_exec_start_def playbg_start_def Let_def no_amp)
         (simp add: x ast_strdup_def)
  qed
  have fs: "find_state ?c2 = Inr ?st" by simp
  from activate_state [OF fs, of env] obtain c' where c':
    "ast_activate_generator env ?c2 = (0, c')"
    "find_state c' = Inr (?st\<lparr>origwfmt := writeformat c'\<rparr>)"
    "stream c' = stream (ast_deactivate_generator env ?c2)"
    by blast
  have "stream ?c2 = None" if "stream c = None"
    using that by (simp add: remove_playbg_def split: option.splits)
  then have "stream c = None \<longrightarrow> stream c' = None"
    using c'(3) stream_deactivate [of ?c2 env] by simp
  then show ?thesis using start c'(1,2) by simp
qed

section \<open>Start parses the specification\<close>

text \<open>
  Claim C7. For resource names that hold no \<open>&\<close>, Start on the names joined by \<open>&\<close>
  (when no allocation fails) attaches a state whose \<open>filearray\<close> holds the names in
  left-to-right order, with \<open>pos = 0\<close>, \<open>samples = 0\<close> and \<open>sample_queue = 0\<close>; a single
  name (no delimiter) gives a list of one entry. A \<open>NULL\<close> or empty specification is
  rejected with \<open>-1\<close> and the channel is left as it was: no state is created.
\<close>

theorem start_parses_specification:
  "(ns \<noteq> [] \<and> (\<forall>x\<in>set ns. CHR ''&'' \<notin> set x \<and> strdup_ok env x) \<and> join_amp ns \<noteq> [] \<and>
    datastore_alloc_ok env \<and> state_alloc_ok env \<and> filearray_alloc_ok env \<longrightarrow>
    (\<exists>c'. playbg_exec_start env c (Some (join_amp ns)) = (0, c') \<and>
       find_state c' =
         Inr \<lparr>filearray = map Some ns, pos = 0, nfiles = int (length ns),
              origwfmt = writeformat c', samples = 0, sample_queue = 0\<rparr>)) \<and>
   playbg_exec_start env c None = (- 1, c) \<and>
   playbg_exec_start env c (Some []) = (- 1, c) \<and>
   playbg_start env c None = (- 1, c) \<and>
   playbg_start env c (Some []) = (- 1, c)"
proof -
  have rejected: "playbg_exec_start env c None = (- 1, c)" "playbg_exec_start env c (Some []) = (- 1, c)"
    "playbg_start env c None = (- 1, c)" "playbg_start env c (Some []) = (- 1, c)"
    by (simp_all add: playbg_exec_start_def playbg_start_def)
  have accepted: "\<exists>c'. playbg_exec_start env c (Some (join_amp ns)) = (0, c') \<and>
       find_state c' =
         Inr \<lparr>filearray = map Some ns, pos = 0, nfiles = int (length ns),
              origwfmt = writeformat c', samples = 0, sample_queue = 0\<rparr>"
    if "ns \<noteq> []" and "\<forall>x\<in>set ns. CHR ''&'' \<notin> set x \<and> strdup_ok env x"
      and "join_amp ns \<noteq> []"
      and "datastore_alloc_ok env" "state_alloc_ok env" "filearray_alloc_ok env"
    using start_accepted [OF that, of c] by blast
  show ?thesis using rejected accepted by blast
qed


theorem start_parses_specification_witness:
  "(\<exists>c'. playbg_exec_start (demo_host []) idle_channel (Some ''a.wav&b.wav'') = (0, c') \<and>
      find_state c' =
        Inr \<lparr>filearray = [Some ''a.wav'', Some ''b.wav''], pos = 0, nfiles = 2,
             origwfmt = writeformat c', samples = 0, sample_queue = 0\<rparr>) \<and>
   (\<exists>c'. playbg_exec_start (demo_host []) idle_channel (Some ''a.wav'') = (0, c') \<and>
      find_state c' =
        Inr \<lparr>filearray = [Some ''a.wav''], pos = 0, nfiles = 1,
             origwfmt = writeformat c', samples = 0, sample_queue = 0\<rparr>)"
proof -
  have h: "datastore_alloc_ok (demo_host [])" "state_alloc_ok (demo_host [])"
    "filearray_alloc_ok (demo_host [])" "\<And>x. strdup_ok (demo_host []) x"
    by (simp_all add: demo_host_def)
  from start_parses_specification [of "[''a.wav'', ''b.wav'']" "demo_host []" idle_channel]
       start_parses_specification [of "[''a.wav'']" "demo_host []" idle_channel] h
  show ?thesis by simp
qed

section \<open>Facts about the seek step, the frame producer and the loop\<close>

lemma wrote_samples_append [simp]:
  "wrote_samples (es @ es') = wrote_samples es + wrote_samples es'"
  by (induction es rule: wrote_samples.induct) auto

lemma evolves_refl [simp]: "evolves c c"
  by (auto simp: evolves_def same_lists_def split: sum.splits)

lemma evolves_trans: "evolves a b \<Longrightarrow> evolves b c \<Longrightarrow> evolves a c"
  by (cases "find_state a") (auto simp: evolves_def same_lists_def)

lemma find_state_Inr: "find_state c = Inr st \<longleftrightarrow> datastore c = Some (Datastore (Some st))"
proof (cases "datastore c")
  case None
  then show ?thesis by (simp add: find_state_def)
next
  case (Some ds)
  then show ?thesis by (cases ds) (auto simp: find_state_def split: option.splits)
qed

lemma upd_state_Inr:
  "find_state c = Inr st \<Longrightarrow> upd_state f c = c\<lparr>datastore := Some (Datastore (Some (f st)))\<rparr>"
  by (simp add: upd_state_def)

lemma upd_state_emit: "upd_state f (emit e c) = emit e (upd_state f c)"
  by (simp add: upd_state_def emit_def split: sum.splits)

lemma seek_no_name:
  assumes "find_state c = Inr st" and "k = (if nfiles st \<le> pos st then 0 else pos st)"
    and "filearray_at st k = None"
  shows "playbg_seek env c =
           (- 1, (close_stream c)\<lparr>datastore := Some (Datastore (Some (st\<lparr>pos := k + 1\<rparr>))),
                   trace := trace (close_stream c) @ [Warn (EmptyFile k)]\<rparr>)"
  using assms
  by (simp add: playbg_seek_def Let_def upd_state_Inr ast_log_def emit_def)

lemma seek_not_opened:
  assumes "find_state c = Inr st" and "k = (if nfiles st \<le> pos st then 0 else pos st)"
    and "filearray_at st k = Some name" and "files env name = None"
  shows "playbg_seek env c =
           (- 1, (close_stream c)\<lparr>datastore := Some (Datastore (Some (st\<lparr>pos := k + 1\<rparr>))),
                   trace := trace (close_stream c) @ [Warn (UnableToOpen name)]\<rparr>)"
  using assms
  by (simp add: playbg_seek_def Let_def upd_state_Inr ast_log_def emit_def ast_openstream_full_def)

lemma seek_opened:
  assumes "find_state c = Inr st" and "k = (if nfiles st \<le> pos st then 0 else pos st)"
    and "filearray_at st k = Some name" and "files env name = Some r"
  shows "playbg_seek env c =
           (0, (close_stream c)\<lparr>datastore := Some (Datastore (Some (st\<lparr>pos := k\<rparr>))),
                 stream := Some \<lparr>sname = name, sread = r, spos = samples st\<rparr>,
                 trace := trace (close_stream c) @ Opened name #
                   (if samples st = 0 then [] else [Sought name (samples st)])\<rparr>)"
proof -
  have "datastore (close_stream c) = Some (Datastore (Some st))"
    using assms(1) by (simp add: find_state_Inr)
  then have "(close_stream c)\<lparr>datastore := Some (Datastore (Some st))\<rparr> = close_stream c"
    by (metis ast_channel.surjective ast_channel.update_convs(1))
  then show ?thesis
    using assms
    by (simp add: playbg_seek_def Let_def upd_state_Inr ast_log_def emit_def
        ast_openstream_full_def ast_seekstream_def)
qed


lemma read_frame:
  assumes "stream c = Some s" and "sread s (spos s) = Some n"
  shows "ast_readframe c =
           (Some \<lparr>fsamples = n, fname = sname s, foffset = spos s\<rparr>,
            c\<lparr>stream := Some (s\<lparr>spos := spos s + n\<rparr>),
              trace := trace c @ [ReadFrame \<lparr>fsamples = n, fname = sname s, foffset = spos s\<rparr>]\<rparr>)"
  using assms by (simp add: ast_readframe_def emit_def Let_def)

lemma read_end:
  assumes "stream c = Some s" and "sread s (spos s) = None"
  shows "ast_readframe c = (None, c\<lparr>trace := trace c @ [ReadEnd (sname s)]\<rparr>)"
  using assms by (simp add: ast_readframe_def emit_def)

lemma read_closed: "stream c = None \<Longrightarrow> ast_readframe c = (None, c)"
  by (simp add: ast_readframe_def)

lemma seek_then_read_cases [consumes 1, case_names failed opened]:
  assumes "seek_then_read env c = (fo, c')"
  obtains (failed) r where "playbg_seek env c = (r, c')" and "r \<noteq> 0" and "fo = None"
  | (opened) c1 where "playbg_seek env c = (0, c1)" and "ast_readframe c1 = (fo, c')"
  using assms by (auto simp: seek_then_read_def split: prod.splits if_splits)

lemma readframe_cases [consumes 1, case_names hot retry nostate advance]:
  assumes "playbg_readframe env c = (fo, c')"
  obtains
    (hot) s f where "stream c = Some s" and "ast_readframe c = (Some f, c')" and "fo = Some f"
  | (retry) c1 f where "c1 = (if stream c = None then c else snd (ast_readframe c))"
      and "stream c \<noteq> None \<Longrightarrow> fst (ast_readframe c) = None"
      and "seek_then_read env c1 = (Some f, c')" and "fo = Some f"
  | (nostate) c1 c2 w where "c1 = (if stream c = None then c else snd (ast_readframe c))"
      and "stream c \<noteq> None \<Longrightarrow> fst (ast_readframe c) = None"
      and "seek_then_read env c1 = (None, c2)" and "find_state c2 = Inl w"
      and "c' = ast_log w c2" and "fo = None"
  | (advance) c1 c2 st2 where "c1 = (if stream c = None then c else snd (ast_readframe c))"
      and "stream c \<noteq> None \<Longrightarrow> fst (ast_readframe c) = None"
      and "seek_then_read env c1 = (None, c2)" and "find_state c2 = Inr st2"
      and "seek_then_read env
             (c2\<lparr>datastore := Some (Datastore (Some (st2\<lparr>pos := pos st2 + 1, samples := 0\<rparr>)))\<rparr>) = (fo, c')"
  using assms
  by (auto simp: playbg_readframe_def upd_state_Inr
      split: prod.splits option.splits sum.splits)


lemma seek_cases [consumes 2, case_names opened refused]:
  assumes "playbg_seek env c = (r, c')" and "find_state c = Inr st"
  obtains
    (opened) name rd where "r = 0"
      and "filearray_at st (if nfiles st \<le> pos st then 0 else pos st) = Some name"
      and "files env name = Some rd"
      and "c' = (close_stream c)
             \<lparr>datastore := Some (Datastore (Some
                 (st\<lparr>pos := (if nfiles st \<le> pos st then 0 else pos st)\<rparr>))),
              stream := Some \<lparr>sname = name, sread = rd, spos = samples st\<rparr>,
              trace := trace (close_stream c) @ Opened name #
                (if samples st = 0 then [] else [Sought name (samples st)])\<rparr>"
  | (refused) w where "r = - 1"
      and "c' = (close_stream c)
             \<lparr>datastore := Some (Datastore (Some
                 (st\<lparr>pos := (if nfiles st \<le> pos st then 0 else pos st) + 1\<rparr>))),
              trace := trace (close_stream c) @ [Warn w]\<rparr>"
      and "filearray_at st (if nfiles st \<le> pos st then 0 else pos st) = None \<or>
           (\<exists>name. filearray_at st (if nfiles st \<le> pos st then 0 else pos st) = Some name \<and>
              files env name = None)"
proof -
  let ?k = "if nfiles st \<le> pos st then 0 else pos st"
  show thesis
  proof (cases "filearray_at st ?k")
    case None
    with assms seek_no_name [OF assms(2) refl None, of env] show thesis
      by (intro refused [of "EmptyFile ?k"]) auto
  next
    case (Some name)
    show thesis
    proof (cases "files env name")
      case None
      with assms Some seek_not_opened [OF assms(2) refl Some None] show thesis
        by (intro refused [of "UnableToOpen name"]) auto
    next
      case (Some rd)
      with assms \<open>filearray_at st ?k = Some name\<close>
        seek_opened [OF assms(2) refl \<open>filearray_at st ?k = Some name\<close> Some]
      show thesis
        by (intro opened [of name rd]) auto
    qed
  qed
qed

lemma seek_no_state:
  "find_state c = Inl w \<Longrightarrow> playbg_seek env c = (- 1, c\<lparr>trace := trace c @ [Warn w]\<rparr>)"
  by (simp add: playbg_seek_def ast_log_def emit_def)

lemma read_cases [consumes 1, case_names closed frame ended]:
  assumes "ast_readframe c = (fo, c')"
  obtains (closed) "stream c = None" and "fo = None" and "c' = c"
  | (frame) s n where "stream c = Some s" and "sread s (spos s) = Some n"
      and "fo = Some \<lparr>fsamples = n, fname = sname s, foffset = spos s\<rparr>"
      and "c' = c\<lparr>stream := Some (s\<lparr>spos := spos s + n\<rparr>),
                trace := trace c @ [ReadFrame \<lparr>fsamples = n, fname = sname s, foffset = spos s\<rparr>]\<rparr>"
  | (ended) s where "stream c = Some s" and "sread s (spos s) = None" and "fo = None"
      and "c' = c\<lparr>trace := trace c @ [ReadEnd (sname s)]\<rparr>"
proof (cases "stream c")
  case None
  with assms show thesis by (intro closed) (auto simp: read_closed)
next
  case (Some s)
  show thesis
  proof (cases "sread s (spos s)")
    case None
    with assms Some read_end [OF Some None] show thesis by (intro ended [of s]) auto
  next
    case (Some n)
    with assms \<open>stream c = Some s\<close> read_frame [OF \<open>stream c = Some s\<close> Some]
    show thesis by (intro frame [of s n]) auto
  qed
qed

subsection \<open>What a frame request leaves alone\<close>

lemma evolves_ast_log: "evolves c c' \<Longrightarrow> evolves c (ast_log w c')"
  by (cases "find_state c") (auto simp: evolves_def ast_log_def emit_def)

lemma evolves_read: "ast_readframe c = (fo, c') \<Longrightarrow> evolves c c'"
  by (cases rule: read_cases, assumption)
     (cases "find_state c"; auto simp: evolves_def same_lists_def)+

lemma evolves_seek: "playbg_seek env c = (r, c') \<Longrightarrow> evolves c c'"
proof (cases "find_state c")
  case (Inl w)
  assume "playbg_seek env c = (r, c')"
  with Inl show ?thesis by (auto simp: seek_no_state evolves_def)
next
  case (Inr st)
  assume "playbg_seek env c = (r, c')"
  then show ?thesis using Inr
    by (cases rule: seek_cases)
       (auto simp: Inr evolves_def same_lists_def trace_close_stream
          split: option.splits)
qed

lemma evolves_seek_then_read: "seek_then_read env c = (fo, c') \<Longrightarrow> evolves c c'"
  by (cases rule: seek_then_read_cases, assumption)
     (blast intro: evolves_seek evolves_read evolves_trans)+

lemma evolves_first_try:
  "evolves c (if stream c = None then c else snd (ast_readframe c))"
  by (cases "ast_readframe c") (auto intro: evolves_read)

lemma evolves_advance:
  "find_state c = Inr st \<Longrightarrow>
   evolves c (c\<lparr>datastore := Some (Datastore (Some (st\<lparr>pos := p, samples := q\<rparr>)))\<rparr>)"
  by (simp add: evolves_def same_lists_def find_state_def)

lemma evolves_playbg_readframe:
  assumes "playbg_readframe env c = (fo, c')"
  shows "evolves c c'"
  using assms
proof (cases rule: readframe_cases)
  case (hot s f)
  then show ?thesis by (blast intro: evolves_read)
next
  case (retry c1 f)
  then show ?thesis
    using evolves_first_try [of c] by (blast intro: evolves_seek_then_read evolves_trans)
next
  case (nostate c1 c2 w)
  then show ?thesis
    using evolves_first_try [of c]
    by (blast intro: evolves_seek_then_read evolves_trans evolves_ast_log evolves_refl)
next
  case (advance c1 c2 st2)
  have "evolves c c2"
    using advance evolves_first_try [of c] by (blast intro: evolves_seek_then_read evolves_trans)
  moreover have "evolves c2 c'"
    using advance by (blast intro: evolves_seek_then_read evolves_trans evolves_advance)
  ultimately show ?thesis by (rule evolves_trans)
qed


subsection \<open>Frames with samples\<close>

lemma positive_read:
  "ast_readframe c = (fo, c') \<Longrightarrow> stream_frames_ok c \<Longrightarrow>
   stream_frames_ok c' \<and> (\<forall>f. fo = Some f \<longrightarrow> 0 < fsamples f \<and> fsamples f \<le> 2147483647)"
  by (cases rule: read_cases, assumption) (auto simp: stream_frames_ok_def)

lemma positive_seek:
  "playbg_seek env c = (r, c') \<Longrightarrow> host_frames_ok env \<Longrightarrow> stream_frames_ok c \<Longrightarrow>
   stream_frames_ok c'"
proof (cases "find_state c")
  case (Inl w)
  assume "playbg_seek env c = (r, c')" "stream_frames_ok c"
  with Inl show ?thesis
    by (auto simp: seek_no_state stream_frames_ok_def)
next
  case (Inr st)
  assume sk: "playbg_seek env c = (r, c')" and h: "host_frames_ok env"
  from sk Inr show ?thesis
    by (cases rule: seek_cases) (use h in \<open>auto simp: stream_frames_ok_def host_frames_ok_def\<close>)
qed

lemma positive_seek_then_read:
  "seek_then_read env c = (fo, c') \<Longrightarrow> host_frames_ok env \<Longrightarrow> stream_frames_ok c \<Longrightarrow>
   stream_frames_ok c' \<and> (\<forall>f. fo = Some f \<longrightarrow> 0 < fsamples f \<and> fsamples f \<le> 2147483647)"
  by (cases rule: seek_then_read_cases, assumption)
     (use positive_seek positive_read in blast)+

lemma positive_first_try:
  "stream_frames_ok c \<Longrightarrow> stream_frames_ok (if stream c = None then c else snd (ast_readframe c))"
  by (cases "ast_readframe c") (use positive_read in auto)

lemma positive_playbg_readframe:
  assumes "playbg_readframe env c = (fo, c')" and "host_frames_ok env" and "stream_frames_ok c"
  shows "stream_frames_ok c' \<and> (\<forall>f. fo = Some f \<longrightarrow> 0 < fsamples f \<and> fsamples f \<le> 2147483647)"
  using assms(1)
proof (cases rule: readframe_cases)
  case (hot s f)
  then show ?thesis using positive_read assms(3) by blast
next
  case (retry c1 f)
  then show ?thesis
    using positive_seek_then_read assms(2) positive_first_try [OF assms(3)] by blast
next
  case (nostate c1 c2 w)
  then have "stream_frames_ok c2"
    using positive_seek_then_read assms(2) positive_first_try [OF assms(3)] by blast
  with nostate show ?thesis by (simp add: stream_frames_ok_def ast_log_def emit_def)
next
  case (advance c1 c2 st2)
  then have "stream_frames_ok c2"
    using positive_seek_then_read assms(2) positive_first_try [OF assms(3)] by blast
  then have "stream_frames_ok
      (c2\<lparr>datastore := Some (Datastore (Some (st2\<lparr>pos := pos st2 + 1, samples := 0\<rparr>)))\<rparr>)"
    by (simp add: stream_frames_ok_def)
  with advance show ?thesis using positive_seek_then_read assms(2) by blast
qed

subsection \<open>The loop, unfolded once\<close>

lemma int32_id: "- 2147483648 \<le> x \<Longrightarrow> x \<le> 2147483647 \<Longrightarrow> int32 x = x"
  by (simp add: int32_def mod_pos_pos_trivial)

lemma find_state_account [simp]:
  "find_state (account f c) =
     map_sum id (\<lambda>s. s\<lparr>samples := int32 (samples s + fsamples f),
                     sample_queue := int32 (sample_queue s - fsamples f)\<rparr>) (find_state c)"
  by (simp add: account_def)

lemma account_fields [simp]:
  "stream (account f c) = stream c" "trace (account f c) = trace c"
  "writeformat (account f c) = writeformat c" "generatordata (account f c) = generatordata c"
  by (simp_all add: account_def)

lemma upd_account:
  "upd_state (\<lambda>s. s\<lparr>sample_queue := int32 (sample_queue s - fsamples f)\<rparr>)
     (upd_state (\<lambda>s. s\<lparr>samples := int32 (samples s + fsamples f)\<rparr>) c1) = account f c1"
  by (cases "find_state c1") (simp_all add: upd_state_def account_def)

lemma generator_loop_step:
  assumes "find_state c = Inr st"
  shows "generator_loop env res c =
     (if 0 < sample_queue st
      then (case playbg_readframe env c of
              (None, c1) \<Rightarrow> Some (- 1, c1)
            | (Some f, c1) \<Rightarrow>
                (if write_res env f < 0
                 then Some (- 1, (account f c1)
                     \<lparr>trace := trace c1 @ [Wrote f (write_res env f), Warn FailedWrite]\<rparr>)
                 else generator_loop env (write_res env f)
                   ((account f c1)\<lparr>trace := trace c1 @ [Wrote f (write_res env f)]\<rparr>)))
      else Some (res, c))"
  by (subst generator_loop.simps)
     (simp add: assms ast_write_def ast_log_def emit_def upd_account
        split: prod.splits option.splits)

lemma generator_loop_no_state:
  "find_state c = Inl w \<Longrightarrow> generator_loop env res c = Some (res, c)"
  by (subst generator_loop.simps) simp

lemmas generator_loop_induct =
  generator_loop.raw_induct [rotated, consumes 1, case_names step]

lemma loop_head_step:
  assumes "find_state c = Inr st"
  shows "loop_head env (Suc k) res c =
     (if 0 < sample_queue st
      then (case playbg_readframe env c of
              (None, c1) \<Rightarrow> None
            | (Some f, c1) \<Rightarrow>
                (if write_res env f < 0 then None
                 else loop_head env k (write_res env f)
                   ((account f c1)\<lparr>trace := trace c1 @ [Wrote f (write_res env f)]\<rparr>)))
      else None)"
  by (simp add: assms ast_write_def emit_def upd_account split: prod.splits option.splits)

text \<open>From a loop head the loop goes on as it would from there.\<close>

lemma loop_head_loop:
  "loop_head env k res c = Some (r, ch) \<Longrightarrow> generator_loop env res c = generator_loop env r ch"
proof (induction k arbitrary: res c)
  case 0
  then show ?case by simp
next
  case (Suc k)
  from Suc.prems obtain st where st: "find_state c = Inr st"
    by (cases "find_state c") auto
  from Suc.prems have q: "0 < sample_queue st"
    by (simp add: loop_head_step [OF st] del: loop_head.simps split: if_splits)
  obtain fo c1 where rf: "playbg_readframe env c = (fo, c1)" by (cases "playbg_readframe env c")
  from Suc.prems q rf obtain f where f: "fo = Some f"
    by (cases fo) (simp_all add: loop_head_step [OF st] del: loop_head.simps)
  from Suc.prems q rf f have w: "\<not> write_res env f < 0"
    by (simp add: loop_head_step [OF st] del: loop_head.simps split: if_splits)
  let ?c2 = "(account f c1)\<lparr>trace := trace c1 @ [Wrote f (write_res env f)]\<rparr>"
  from Suc.prems q rf f w have "loop_head env k (write_res env f) ?c2 = Some (r, ch)"
    by (simp add: loop_head_step [OF st] del: loop_head.simps)
  from Suc.IH [OF this] show ?case
    using q rf f w by (simp add: generator_loop_step [OF st])
qed

text \<open>The pass that leads to a loop head: what it read, accounted for and wrote.\<close>

lemma loop_head_last:
  "loop_head env (Suc k) res c = Some (r, ch) \<Longrightarrow>
   \<exists>r0 ch0 st0 f c1 st1.
     loop_head env k res c = Some (r0, ch0) \<and> find_state ch0 = Inr st0 \<and>
     0 < sample_queue st0 \<and> playbg_readframe env ch0 = (Some f, c1) \<and>
     find_state c1 = Inr st1 \<and> r = write_res env f \<and> 0 \<le> r \<and>
     ch = c1\<lparr>datastore := Some (Datastore (Some
                 (st1\<lparr>samples := int32 (samples st1 + fsamples f),
                      sample_queue := int32 (sample_queue st1 - fsamples f)\<rparr>))),
             trace := trace c1 @ [Wrote f r]\<rparr>"
proof (induction k arbitrary: res c)
  case 0
  from 0 obtain st where st: "find_state c = Inr st"
    by (cases "find_state c") auto
  from 0 have q: "0 < sample_queue st"
    by (simp add: loop_head_step [OF st] del: loop_head.simps split: if_splits)
  obtain fo c1 where rf: "playbg_readframe env c = (fo, c1)" by (cases "playbg_readframe env c")
  from 0 q rf obtain f where f: "fo = Some f"
    by (cases fo) (simp_all add: loop_head_step [OF st] del: loop_head.simps)
  from 0 q rf f have w: "\<not> write_res env f < 0"
    by (simp add: loop_head_step [OF st] del: loop_head.simps split: if_splits)
  from evolves_playbg_readframe [OF rf] st obtain st1 where st1: "find_state c1 = Inr st1"
    by (auto simp: evolves_def)
  have acc: "account f c1 = c1\<lparr>datastore := Some (Datastore (Some
                 (st1\<lparr>samples := int32 (samples st1 + fsamples f),
                      sample_queue := int32 (sample_queue st1 - fsamples f)\<rparr>)))\<rparr>"
    by (simp add: account_def upd_state_Inr [OF st1])
  from 0 q rf f w have "r = write_res env f"
    and "ch = (account f c1)\<lparr>trace := trace c1 @ [Wrote f (write_res env f)]\<rparr>"
    by (auto simp add: loop_head_step [OF st] simp del: loop_head.simps(2))
  with st q rf f w st1 acc show ?case by simp
next
  case (Suc k)
  from Suc.prems obtain st where st: "find_state c = Inr st"
    by (cases "find_state c") auto
  from Suc.prems have q: "0 < sample_queue st"
    by (simp add: loop_head_step [OF st] del: loop_head.simps split: if_splits)
  obtain fo c1 where rf: "playbg_readframe env c = (fo, c1)" by (cases "playbg_readframe env c")
  from Suc.prems q rf obtain f where f: "fo = Some f"
    by (cases fo) (simp_all add: loop_head_step [OF st] del: loop_head.simps)
  from Suc.prems q rf f have w: "\<not> write_res env f < 0"
    by (simp add: loop_head_step [OF st] del: loop_head.simps split: if_splits)
  let ?c2 = "(account f c1)\<lparr>trace := trace c1 @ [Wrote f (write_res env f)]\<rparr>"
  from Suc.prems q rf f w have "loop_head env (Suc k) (write_res env f) ?c2 = Some (r, ch)"
    by (simp add: loop_head_step [OF st] del: loop_head.simps)
  from Suc.IH [OF this] obtain r0 ch0 st0 g d1 st1 where
    h: "loop_head env k (write_res env f) ?c2 = Some (r0, ch0)" "find_state ch0 = Inr st0"
      "0 < sample_queue st0" "playbg_readframe env ch0 = (Some g, d1)"
      "find_state d1 = Inr st1" "r = write_res env g" "0 \<le> r"
      "ch = d1\<lparr>datastore := Some (Datastore (Some
                 (st1\<lparr>samples := int32 (samples st1 + fsamples g),
                      sample_queue := int32 (sample_queue st1 - fsamples g)\<rparr>))),
             trace := trace d1 @ [Wrote g r]\<rparr>"
    by blast
  have "loop_head env (Suc k) res c = Some (r0, ch0)"
    using q rf f w h(1) by (simp add: loop_head_step [OF st] del: loop_head.simps)
  with h(2-8) show ?case by blast
qed

text \<open>
  The loop returns when every frame holds samples; it ends at one of its heads, and the
  queue accounts for every frame written.
\<close>

lemma generator_loop_total:
  assumes "host_frames_ok env"
  shows "stream_frames_ok c \<Longrightarrow> find_state c = Inr st \<Longrightarrow> sample_queue st \<le> 2147483647 \<Longrightarrow>
    \<exists>res' c' st' es k r ch sth. generator_loop env res c = Some (res', c') \<and>
       find_state c' = Inr st' \<and> trace c' = trace c @ es \<and>
       sample_queue st' = sample_queue st - wrote_samples es \<and>
       loop_head env k res c = Some (r, ch) \<and> find_state ch = Inr sth \<and>
       burst_end env r ch (res', c') \<and> (r = res \<or> 0 \<le> r)"
proof (induction "nat (sample_queue st)" arbitrary: c st res rule: less_induct)
  case less
  show ?case
  proof (cases "0 < sample_queue st")
    case False
    have "loop_head env 0 res c = Some (res, c)" by simp
    moreover have "burst_end env res c (res, c)"
      using False less.prems by (simp add: burst_end_def)
    moreover have "generator_loop env res c = Some (res, c)"
      using False less.prems by (simp add: generator_loop_step)
    moreover have "trace c = trace c @ []" "sample_queue st = sample_queue st - wrote_samples []"
      by simp_all
    ultimately show ?thesis using less.prems(2) by blast
  next
    case True
    obtain fo c1 where rf: "playbg_readframe env c = (fo, c1)" by (cases "playbg_readframe env c")
    from evolves_playbg_readframe [OF rf] less.prems obtain st1 es1 where
      st1: "find_state c1 = Inr st1" "sample_queue st1 = sample_queue st"
        "trace c1 = trace c @ es1" "wrote_samples es1 = 0"
      by (auto simp: evolves_def same_lists_def)
    from positive_playbg_readframe [OF rf assms less.prems(1)] have
      pos1: "stream_frames_ok c1" "\<And>f. fo = Some f \<Longrightarrow> 0 < fsamples f \<and> fsamples f \<le> 2147483647"
      by auto
    have h0: "loop_head env 0 res c = Some (res, c)" by simp
    show ?thesis
    proof (cases fo)
      case None
      have "burst_end env res c (- 1, c1)"
        using True rf None less.prems by (simp add: burst_end_def)
      moreover have "generator_loop env res c = Some (- 1, c1)"
        using True rf None less.prems by (simp add: generator_loop_step)
      moreover have "sample_queue st1 = sample_queue st - wrote_samples es1"
        using st1 by simp
      ultimately show ?thesis using h0 st1(1,3) less.prems(2) by blast
    next
      case (Some f)
      from pos1(2) [OF Some] have fpos: "0 < fsamples f" "fsamples f \<le> 2147483647" by auto
      have q32: "int32 (sample_queue st1 - fsamples f) = sample_queue st1 - fsamples f"
        using fpos True st1(2) less.prems(3) by (intro int32_id) simp_all
      let ?st2 = "st1\<lparr>samples := int32 (samples st1 + fsamples f),
                        sample_queue := int32 (sample_queue st1 - fsamples f)\<rparr>"
      show ?thesis
      proof (cases "write_res env f < 0")
        case True
        let ?c2 = "(account f c1)\<lparr>trace := trace c1 @ [Wrote f (write_res env f), Warn FailedWrite]\<rparr>"
        have "burst_end env res c (- 1, ?c2)"
          using True \<open>0 < sample_queue st\<close> rf Some less.prems by (simp add: burst_end_def)
        moreover have "generator_loop env res c = Some (- 1, ?c2)"
          using True \<open>0 < sample_queue st\<close> rf Some less.prems by (simp add: generator_loop_step)
        moreover have "find_state ?c2 = Inr ?st2" using st1 by simp
        moreover have "trace ?c2 = trace c @ (es1 @ [Wrote f (write_res env f), Warn FailedWrite])"
          using st1 by simp
        moreover have "sample_queue ?st2 =
            sample_queue st - wrote_samples (es1 @ [Wrote f (write_res env f), Warn FailedWrite])"
          using st1 q32 by simp
        ultimately show ?thesis using h0 less.prems(2) by blast
      next
        case False
        let ?c2 = "(account f c1)\<lparr>trace := trace c1 @ [Wrote f (write_res env f)]\<rparr>"
        have fs2: "find_state ?c2 = Inr ?st2" using st1 by simp
        have smaller: "nat (sample_queue ?st2) < nat (sample_queue st)"
          using True st1 fpos q32 by simp
        have sp2: "stream_frames_ok ?c2" using pos1 by (simp add: stream_frames_ok_def)
        have le2: "sample_queue ?st2 \<le> 2147483647"
          using q32 fpos st1(2) less.prems(3) by simp
        from less.hyps [OF smaller sp2 fs2 le2, of "write_res env f"]
        obtain res' c' st' es k r ch sth where
          r: "generator_loop env (write_res env f) ?c2 = Some (res', c')"
            "find_state c' = Inr st'" "trace c' = trace ?c2 @ es"
            "sample_queue st' = sample_queue ?st2 - wrote_samples es"
            "loop_head env k (write_res env f) ?c2 = Some (r, ch)" "find_state ch = Inr sth"
            "burst_end env r ch (res', c')" "r = write_res env f \<or> 0 \<le> r"
          by blast
        have "generator_loop env res c = Some (res', c')"
          using True rf Some False r(1) less.prems by (simp add: generator_loop_step)
        moreover have "trace c' = trace c @ (es1 @ Wrote f (write_res env f) # es)"
          using r(3) st1 by simp
        moreover have "sample_queue st' =
            sample_queue st - wrote_samples (es1 @ Wrote f (write_res env f) # es)"
          using r(4) st1 q32 by simp
        moreover have "loop_head env (Suc k) res c = Some (r, ch)"
          using True rf Some False r(5) less.prems(2)
          by (simp add: loop_head_step del: loop_head.simps)
        moreover have "r = res \<or> 0 \<le> r" using r(8) False by auto
        ultimately show ?thesis using r(2) r(6) r(7) by blast
      qed
    qed
  qed
qed

section \<open>The generator accounts for the samples it delivers\<close>

lemmas model_defs = emit_def ast_log_def find_state_def upd_state_def close_stream_def
  ast_openstream_full_def ast_readframe_def ast_seekstream_def ast_write_def
  ast_set_write_format_def filearray_at_def playbg_seek_def seek_then_read_def
  playbg_readframe_def playbg_generator_def playbg_alloc_def ast_deactivate_generator_def
  ast_activate_generator_def playbg_release_def playbg_exec_start_def playbg_start_def
  ast_strdup_def remove_playbg_def ast_channel_datastore_free_def playbg_state_destroy_def
  demo_host_def idle_channel_def pcm_def start_on_def state_field_def Let_def int32_def

lemma host_frames_ok_demo: "host_frames_ok (demo_host fs)"
  by (auto simp: host_frames_ok_def demo_host_def pcm_def split: if_splits)

lemma new_events_append: "trace c' = trace c @ es \<Longrightarrow> new_events c c' = es"
  by (simp add: new_events_def)

lemma generator_with_state:
  "find_state c = Inr st \<Longrightarrow>
   playbg_generator env c n =
     generator_loop env 0
       (c\<lparr>datastore := Some (Datastore (Some (st\<lparr>sample_queue := int32 (sample_queue st + n)\<rparr>)))\<rparr>)"
  by (simp add: playbg_generator_def upd_state_Inr)

lemma burst_end_cases:
  assumes "burst_end env r ch (res, c')" and "find_state ch = Inr sth"
  shows "if 0 < sample_queue sth
         then res = - 1 \<and>
              (playbg_readframe env ch = (None, c') \<or>
               (\<exists>f c1. playbg_readframe env ch = (Some f, c1) \<and> write_res env f < 0 \<and>
                  c' = (account f c1)
                         \<lparr>trace := trace c1 @ [Wrote f (write_res env f), Warn FailedWrite]\<rparr>))
         else res = r \<and> c' = ch"
proof (cases "0 < sample_queue sth")
  case False
  with assms show ?thesis by (simp add: burst_end_def)
next
  case True
  obtain fo c1 where rf: "playbg_readframe env ch = (fo, c1)"
    by (cases "playbg_readframe env ch")
  show ?thesis
  proof (cases fo)
    case None
    with assms True rf show ?thesis by (simp add: burst_end_def)
  next
    case (Some f)
    with assms True rf show ?thesis by (simp add: burst_end_def)
  qed
qed

text \<open>
  Claim C5, as amended. Take a channel with a state attached, frames that each hold at
  least one sample and no more than a C \<open>int\<close> can count, and a request \<open>n\<close> that the
  queue can take without overflow. The invocation then returns. It has added \<open>n\<close> to
  \<open>sample_queue\<close> and taken off the samples of every frame it wrote. It ends at a head of
  its loop, reached by \<open>k\<close> passes that each wrote a frame: with samples still queued
  there it returns \<open>-1\<close>, because the frame producer yielded no frame or because the write
  of the frame it yielded failed; otherwise it returns the result of the last write (0
  when it wrote nothing), which is not negative, with the queue at 0 or below. Every pass
  that leads to a loop head found samples queued, obtained a frame from the frame
  producer, added its sample count to \<open>samples\<close>, subtracted it from \<open>sample_queue\<close>
  (both in 32-bit arithmetic) and wrote the frame.
\<close>

theorem generator_accounts_samples:
  "(host_frames_ok env \<and> stream_frames_ok c \<and> find_state c = Inr st \<and>
    - 2147483648 \<le> sample_queue st + n \<and> sample_queue st + n \<le> 2147483647 \<longrightarrow>
      (\<exists>res c' st' k r ch sth.
         playbg_generator env c n = Some (res, c') \<and> find_state c' = Inr st' \<and>
         sample_queue st' = sample_queue st + n - wrote_samples (new_events c c') \<and>
         loop_head env k 0
           (upd_state (\<lambda>s. s\<lparr>sample_queue := int32 (sample_queue s + n)\<rparr>) c) = Some (r, ch) \<and>
         find_state ch = Inr sth \<and>
         (if 0 < sample_queue sth
          then res = - 1 \<and>
               (playbg_readframe env ch = (None, c') \<or>
                (\<exists>f c1. playbg_readframe env ch = (Some f, c1) \<and> write_res env f < 0 \<and>
                   c' = (account f c1)
                          \<lparr>trace := trace c1 @ [Wrote f (write_res env f), Warn FailedWrite]\<rparr>))
          else 0 \<le> res \<and> res = r \<and> c' = ch \<and> sample_queue st' \<le> 0))) \<and>
   (loop_head env (Suc j) 0
      (upd_state (\<lambda>s. s\<lparr>sample_queue := int32 (sample_queue s + n)\<rparr>) c) = Some (rj, cj) \<longrightarrow>
      (\<exists>r0 ch0 st0 f c1 st1.
         loop_head env j 0
           (upd_state (\<lambda>s. s\<lparr>sample_queue := int32 (sample_queue s + n)\<rparr>) c) = Some (r0, ch0) \<and>
         find_state ch0 = Inr st0 \<and> 0 < sample_queue st0 \<and>
         playbg_readframe env ch0 = (Some f, c1) \<and> find_state c1 = Inr st1 \<and>
         rj = write_res env f \<and> 0 \<le> rj \<and>
         cj = c1\<lparr>datastore := Some (Datastore (Some
                    (st1\<lparr>samples := int32 (samples st1 + fsamples f),
                         sample_queue := int32 (sample_queue st1 - fsamples f)\<rparr>))),
                trace := trace c1 @ [Wrote f rj]\<rparr>))"
proof (intro conjI impI)
  assume "host_frames_ok env \<and> stream_frames_ok c \<and> find_state c = Inr st \<and>
    - 2147483648 \<le> sample_queue st + n \<and> sample_queue st + n \<le> 2147483647"
  then have hp: "host_frames_ok env" and sp: "stream_frames_ok c" and fs: "find_state c = Inr st"
    and lo: "- 2147483648 \<le> sample_queue st + n" and hi: "sample_queue st + n \<le> 2147483647"
    by simp_all
  let ?st0 = "st\<lparr>sample_queue := int32 (sample_queue st + n)\<rparr>"
  let ?c0 = "c\<lparr>datastore := Some (Datastore (Some ?st0))\<rparr>"
  have q0: "int32 (sample_queue st + n) = sample_queue st + n" using lo hi by (rule int32_id)
  have c0: "upd_state (\<lambda>s. s\<lparr>sample_queue := int32 (sample_queue s + n)\<rparr>) c = ?c0"
    by (simp add: upd_state_Inr [OF fs])
  have sp0: "stream_frames_ok ?c0" using sp by (simp add: stream_frames_ok_def)
  have fs0: "find_state ?c0 = Inr ?st0" by simp
  have le0: "sample_queue ?st0 \<le> 2147483647" using q0 hi by simp
  from generator_loop_total [OF hp sp0 fs0 le0, of 0] obtain res c' st' es k r ch sth where
    r: "generator_loop env 0 ?c0 = Some (res, c')" "find_state c' = Inr st'"
      "trace c' = trace ?c0 @ es" "sample_queue st' = sample_queue ?st0 - wrote_samples es"
      "loop_head env k 0 ?c0 = Some (r, ch)" "find_state ch = Inr sth"
      "burst_end env r ch (res, c')" "r = 0 \<or> 0 \<le> r"
    by blast
  have ev: "new_events c c' = es" using r(3) by (simp add: new_events_def)
  have gen: "playbg_generator env c n = Some (res, c')"
    using r(1) generator_with_state [OF fs, of env n] by simp
  have acc: "sample_queue st' = sample_queue st + n - wrote_samples (new_events c c')"
    using r(4) ev q0 by simp
  note be = burst_end_cases [OF r(7) r(6)]
  have fin: "if 0 < sample_queue sth
          then res = - 1 \<and>
               (playbg_readframe env ch = (None, c') \<or>
                (\<exists>f c1. playbg_readframe env ch = (Some f, c1) \<and> write_res env f < 0 \<and>
                   c' = (account f c1)
                          \<lparr>trace := trace c1 @ [Wrote f (write_res env f), Warn FailedWrite]\<rparr>))
          else 0 \<le> res \<and> res = r \<and> c' = ch \<and> sample_queue st' \<le> 0"
  proof (cases "0 < sample_queue sth")
    case True
    with be show ?thesis by simp
  next
    case False
    with be have e: "res = r" "c' = ch" by simp_all
    with r(2) r(6) have "st' = sth" by simp
    with False e r(8) show ?thesis by auto
  qed
  show "\<exists>res c' st' k r ch sth.
         playbg_generator env c n = Some (res, c') \<and> find_state c' = Inr st' \<and>
         sample_queue st' = sample_queue st + n - wrote_samples (new_events c c') \<and>
         loop_head env k 0
           (upd_state (\<lambda>s. s\<lparr>sample_queue := int32 (sample_queue s + n)\<rparr>) c) = Some (r, ch) \<and>
         find_state ch = Inr sth \<and>
         (if 0 < sample_queue sth
          then res = - 1 \<and>
               (playbg_readframe env ch = (None, c') \<or>
                (\<exists>f c1. playbg_readframe env ch = (Some f, c1) \<and> write_res env f < 0 \<and>
                   c' = (account f c1)
                          \<lparr>trace := trace c1 @ [Wrote f (write_res env f), Warn FailedWrite]\<rparr>))
          else 0 \<le> res \<and> res = r \<and> c' = ch \<and> sample_queue st' \<le> 0)"
    unfolding c0
    by (intro exI [of _ res] exI [of _ c'] exI [of _ st'] exI [of _ k] exI [of _ r]
          exI [of _ ch] exI [of _ sth] conjI gen r(2) acc r(5) r(6) fin)
next
  assume "loop_head env (Suc j) 0
      (upd_state (\<lambda>s. s\<lparr>sample_queue := int32 (sample_queue s + n)\<rparr>) c) = Some (rj, cj)"
  then show "\<exists>r0 ch0 st0 f c1 st1.
         loop_head env j 0
           (upd_state (\<lambda>s. s\<lparr>sample_queue := int32 (sample_queue s + n)\<rparr>) c) = Some (r0, ch0) \<and>
         find_state ch0 = Inr st0 \<and> 0 < sample_queue st0 \<and>
         playbg_readframe env ch0 = (Some f, c1) \<and> find_state c1 = Inr st1 \<and>
         rj = write_res env f \<and> 0 \<le> rj \<and>
         cj = c1\<lparr>datastore := Some (Datastore (Some
                    (st1\<lparr>samples := int32 (samples st1 + fsamples f),
                         sample_queue := int32 (sample_queue st1 - fsamples f)\<rparr>))),
                trace := trace c1 @ [Wrote f rj]\<rparr>"
    by (rule loop_head_last)
qed

lemma start_on_a:
  "start_on (demo_host fs) ''a.wav'' =
     \<lparr>datastore = Some (Datastore (Some \<lparr>filearray = [Some ''a.wav''], pos = 0, nfiles = 1,
         origwfmt = 64, samples = 0, sample_queue = 0\<rparr>)),
      stream = None, writeformat = 64, generatordata = True, trace = []\<rparr>"
  by (simp add: model_defs)

lemma start_on_ab:
  "start_on (demo_host fs) ''a.wav&b.wav'' =
     \<lparr>datastore = Some (Datastore (Some \<lparr>filearray = [Some ''a.wav'', Some ''b.wav''], pos = 0,
         nfiles = 2, origwfmt = 64, samples = 0, sample_queue = 0\<rparr>)),
      stream = None, writeformat = 64, generatordata = True, trace = []\<rparr>"
  by (simp add: model_defs eval_nat_numeral)

theorem generator_accounts_samples_witness:
  "host_frames_ok (demo_host [(''a.wav'', 100)]) \<and>
   stream_frames_ok (start_on (demo_host [(''a.wav'', 100)]) ''a.wav'') \<and>
   find_state (start_on (demo_host [(''a.wav'', 100)]) ''a.wav'') =
     Inr \<lparr>filearray = [Some ''a.wav''], pos = 0, nfiles = 1, origwfmt = 64, samples = 0,
          sample_queue = 0\<rparr> \<and>
   map_option fst (playbg_generator (demo_host [(''a.wav'', 100)])
      (start_on (demo_host [(''a.wav'', 100)]) ''a.wav'') 160) = Some 0 \<and>
   map_option (state_field sample_queue \<circ> snd) (playbg_generator (demo_host [(''a.wav'', 100)])
      (start_on (demo_host [(''a.wav'', 100)]) ''a.wav'') 160) = Some (Some 0) \<and>
   map_option (wrote_samples \<circ> trace \<circ> snd) (playbg_generator (demo_host [(''a.wav'', 100)])
      (start_on (demo_host [(''a.wav'', 100)]) ''a.wav'') 160) = Some 160 \<and>
   loop_head (demo_host [(''a.wav'', 100)]) 8 0
     (upd_state (\<lambda>s. s\<lparr>sample_queue := int32 (sample_queue s + 160)\<rparr>)
        (start_on (demo_host [(''a.wav'', 100)]) ''a.wav'')) =
     playbg_generator (demo_host [(''a.wav'', 100)])
       (start_on (demo_host [(''a.wav'', 100)]) ''a.wav'') 160 \<and>
   (\<exists>res c' st' k r ch sth.
      playbg_generator (demo_host [(''a.wav'', 100)])
        (start_on (demo_host [(''a.wav'', 100)]) ''a.wav'') 160 = Some (res, c') \<and>
      find_state c' = Inr st' \<and>
      sample_queue st' = 160 -
        wrote_samples (new_events (start_on (demo_host [(''a.wav'', 100)]) ''a.wav'') c') \<and>
      loop_head (demo_host [(''a.wav'', 100)]) k 0
        (upd_state (\<lambda>s. s\<lparr>sample_queue := int32 (sample_queue s + 160)\<rparr>)
           (start_on (demo_host [(''a.wav'', 100)]) ''a.wav'')) = Some (r, ch) \<and>
      find_state ch = Inr sth \<and> \<not> 0 < sample_queue sth \<and>
      0 \<le> res \<and> res = r \<and> c' = ch \<and> sample_queue st' \<le> 0) \<and>
   loop_head (demo_host [(''a.wav'', 100)]) (Suc 0) 0
     (upd_state (\<lambda>s. s\<lparr>sample_queue := int32 (sample_queue s + 160)\<rparr>)
        (start_on (demo_host [(''a.wav'', 100)]) ''a.wav'')) =
     Some (0,
       \<lparr>datastore = Some (Datastore (Some
          \<lparr>filearray = [Some ''a.wav''], pos = 0, nfiles = 1, origwfmt = 64,
           samples = 20, sample_queue = 140\<rparr>)),
        stream = Some \<lparr>sname = ''a.wav'', sread = pcm 100 20, spos = 20\<rparr>,
        writeformat = 64, generatordata = True,
        trace =
          [Opened ''a.wav'',
           ReadFrame \<lparr>fsamples = 20, fname = ''a.wav'', foffset = 0\<rparr>,
           Wrote \<lparr>fsamples = 20, fname = ''a.wav'', foffset = 0\<rparr> 0]\<rparr>) \<and>
   (\<exists>st0 f c1 st1.
      find_state (upd_state (\<lambda>s. s\<lparr>sample_queue := int32 (sample_queue s + 160)\<rparr>)
        (start_on (demo_host [(''a.wav'', 100)]) ''a.wav'')) = Inr st0 \<and>
      sample_queue st0 = 160 \<and>
      playbg_readframe (demo_host [(''a.wav'', 100)])
        (upd_state (\<lambda>s. s\<lparr>sample_queue := int32 (sample_queue s + 160)\<rparr>)
           (start_on (demo_host [(''a.wav'', 100)]) ''a.wav'')) = (Some f, c1) \<and>
      find_state c1 = Inr st1 \<and> fsamples f = 20 \<and> samples st1 = 0 \<and> sample_queue st1 = 160)"
proof -
  let ?h = "demo_host [(''a.wav'', 100)]"
  let ?c = "start_on ?h ''a.wav''"
  let ?st = "\<lparr>filearray = [Some ''a.wav''], pos = 0, nfiles = 1,
         origwfmt = 64, samples = 0, sample_queue = 0\<rparr>"
  let ?cq = "upd_state (\<lambda>s. s\<lparr>sample_queue := int32 (sample_queue s + 160)\<rparr>) ?c"
  let ?cha = "\<lparr>datastore = Some (Datastore (Some
          \<lparr>filearray = [Some ''a.wav''], pos = 0, nfiles = 1, origwfmt = 64,
           samples = 20, sample_queue = 140\<rparr>)),
        stream = Some \<lparr>sname = ''a.wav'', sread = pcm 100 20, spos = 20\<rparr>,
        writeformat = 64, generatordata = True,
        trace =
          [Opened ''a.wav'',
           ReadFrame \<lparr>fsamples = 20, fname = ''a.wav'', foffset = 0\<rparr>,
           Wrote \<lparr>fsamples = 20, fname = ''a.wav'', foffset = 0\<rparr> 0]\<rparr>"
  have h1: "host_frames_ok ?h" by (rule host_frames_ok_demo)
  have h2: "stream_frames_ok ?c" by (simp add: start_on_a stream_frames_ok_def)
  have h3: "find_state ?c = Inr ?st" by (simp add: start_on_a find_state_def)
  have h4: "- 2147483648 \<le> sample_queue ?st + 160" "sample_queue ?st + 160 \<le> 2147483647"
    by simp_all
  have tr: "trace ?c = []" by (simp add: start_on_a)
  have g1: "map_option fst (playbg_generator ?h ?c 160) = Some 0"
    by (simp add: start_on_a) (simp add: model_defs generator_loop.simps)
  have g2: "map_option (state_field sample_queue \<circ> snd) (playbg_generator ?h ?c 160) = Some (Some 0)"
    by (simp add: start_on_a) (simp add: model_defs generator_loop.simps)
  have g3: "map_option (wrote_samples \<circ> trace \<circ> snd) (playbg_generator ?h ?c 160) = Some 160"
    by (simp add: start_on_a) (simp add: model_defs generator_loop.simps)
  have g4: "loop_head ?h 8 0 ?cq = playbg_generator ?h ?c 160"
    by (simp add: start_on_a) (simp add: model_defs generator_loop.simps eval_nat_numeral)
  have l1: "loop_head ?h (Suc 0) 0 ?cq = Some (0, ?cha)"
    by (simp add: start_on_a) (simp add: model_defs)
  note inst = generator_accounts_samples [of ?h ?c ?st 160 0 0 ?cha]
  from inst [THEN conjunct1, THEN mp, OF conjI [OF h1 conjI [OF h2 conjI [OF h3 conjI [OF h4]]]]]
  obtain res c' st' k r ch sth where
    e: "playbg_generator ?h ?c 160 = Some (res, c')" "find_state c' = Inr st'"
      "sample_queue st' = sample_queue ?st + 160 - wrote_samples (new_events ?c c')"
      "loop_head ?h k 0 ?cq = Some (r, ch)" "find_state ch = Inr sth"
      "if 0 < sample_queue sth
          then res = - 1 \<and>
               (playbg_readframe ?h ch = (None, c') \<or>
                (\<exists>f c1. playbg_readframe ?h ch = (Some f, c1) \<and> write_res ?h f < 0 \<and>
                   c' = (account f c1)
                          \<lparr>trace := trace c1 @ [Wrote f (write_res ?h f), Warn FailedWrite]\<rparr>))
          else 0 \<le> res \<and> res = r \<and> c' = ch \<and> sample_queue st' \<le> 0"
    by - (elim exE conjE, rule that)
  from e(1) g1 have res0: "res = 0" by simp
  with e(6) have nq: "\<not> 0 < sample_queue sth" by (cases "0 < sample_queue sth") simp_all
  with e(6) have fin: "0 \<le> res" "res = r" "c' = ch" "sample_queue st' \<le> 0" by simp_all
  have e3: "sample_queue st' = 160 - wrote_samples (new_events ?c c')" using e(3) by simp
  have E1: "\<exists>res c' st' k r ch sth.
      playbg_generator ?h ?c 160 = Some (res, c') \<and> find_state c' = Inr st' \<and>
      sample_queue st' = 160 - wrote_samples (new_events ?c c') \<and>
      loop_head ?h k 0 ?cq = Some (r, ch) \<and>
      find_state ch = Inr sth \<and> \<not> 0 < sample_queue sth \<and>
      0 \<le> res \<and> res = r \<and> c' = ch \<and> sample_queue st' \<le> 0"
    by (intro exI [of _ res] exI [of _ c'] exI [of _ st'] exI [of _ k] exI [of _ r]
          exI [of _ ch] exI [of _ sth] conjI e(1) e(2) e3 e(4) e(5) nq fin)
  from inst [THEN conjunct2, THEN mp, OF l1]
  obtain r0 ch0 st0 f c1 st1 where
    p: "loop_head ?h 0 0 ?cq = Some (r0, ch0)" "find_state ch0 = Inr st0"
      "0 < sample_queue st0" "playbg_readframe ?h ch0 = (Some f, c1)" "find_state c1 = Inr st1"
      "(0::int) = write_res ?h f" "(0::int) \<le> 0"
      "?cha = c1\<lparr>datastore := Some (Datastore (Some
                    (st1\<lparr>samples := int32 (samples st1 + fsamples f),
                         sample_queue := int32 (sample_queue st1 - fsamples f)\<rparr>))),
                trace := trace c1 @ [Wrote f 0]\<rparr>"
    by - (elim exE conjE, rule that)
  from p(1) have ch0: "ch0 = ?cq" by simp
  have st0: "find_state ?cq = Inr (?st\<lparr>sample_queue := 160\<rparr>)"
    by (simp add: start_on_a) (simp add: model_defs)
  with p(2) ch0 have q0: "sample_queue st0 = 160" by simp
  have rf: "playbg_readframe ?h ?cq =
      (Some \<lparr>fsamples = 20, fname = ''a.wav'', foffset = 0\<rparr>,
       \<lparr>datastore = Some (Datastore (Some
          \<lparr>filearray = [Some ''a.wav''], pos = 0, nfiles = 1, origwfmt = 64,
           samples = 0, sample_queue = 160\<rparr>)),
        stream = Some \<lparr>sname = ''a.wav'', sread = pcm 100 20, spos = 20\<rparr>,
        writeformat = 64, generatordata = True,
        trace = [Opened ''a.wav'',
           ReadFrame \<lparr>fsamples = 20, fname = ''a.wav'', foffset = 0\<rparr>]\<rparr>)"
    by (simp add: start_on_a) (simp add: model_defs)
  from p(4) ch0 rf have f: "f = \<lparr>fsamples = 20, fname = ''a.wav'', foffset = 0\<rparr>"
    and c1: "c1 = \<lparr>datastore = Some (Datastore (Some
          \<lparr>filearray = [Some ''a.wav''], pos = 0, nfiles = 1, origwfmt = 64,
           samples = 0, sample_queue = 160\<rparr>)),
        stream = Some \<lparr>sname = ''a.wav'', sread = pcm 100 20, spos = 20\<rparr>,
        writeformat = 64, generatordata = True,
        trace = [Opened ''a.wav'',
           ReadFrame \<lparr>fsamples = 20, fname = ''a.wav'', foffset = 0\<rparr>]\<rparr>"
    by auto
  from p(5) c1 have s1: "samples st1 = 0" "sample_queue st1 = 160"
    by (auto simp: find_state_def)
  from f have f20: "fsamples f = 20" by simp
  have E2: "\<exists>st0 f c1 st1.
      find_state ?cq = Inr st0 \<and> sample_queue st0 = 160 \<and>
      playbg_readframe ?h ?cq = (Some f, c1) \<and>
      find_state c1 = Inr st1 \<and> fsamples f = 20 \<and> samples st1 = 0 \<and> sample_queue st1 = 160"
    using p(2) p(4) p(5) q0 f20 s1 unfolding ch0
    by (intro exI [of _ st0] exI [of _ f] exI [of _ c1] exI [of _ st1] conjI)
  show ?thesis
    by (intro conjI h1 h2 h3 g1 g2 g3 g4 E1 l1 E2)
qed

text \<open>
  Claim C5 as stated fails: after Start on a single resource that cannot be opened, a
  request of 160 samples returns \<open>-1\<close> with all 160 samples still pending.
\<close>

theorem generator_abort_keeps_queue:
  "map_option fst (playbg_generator (demo_host []) (start_on (demo_host []) ''a.wav'') 160) =
     Some (- 1) \<and>
   map_option (state_field sample_queue \<circ> snd)
     (playbg_generator (demo_host []) (start_on (demo_host []) ''a.wav'') 160) = Some (Some 160)"
  by (simp add: start_on_a)
     (simp add: model_defs generator_loop.simps)


section \<open>Aborting an invocation\<close>

lemma filearray_at_updates [simp]:
  "filearray_at (st\<lparr>pos := p\<rparr>) = filearray_at st"
  "filearray_at (st\<lparr>samples := q\<rparr>) = filearray_at st"
  "filearray_at (st\<lparr>sample_queue := k\<rparr>) = filearray_at st"
  "filearray_at (st\<lparr>origwfmt := w\<rparr>) = filearray_at st"
  by (simp_all add: filearray_at_def fun_eq_iff)

lemma seek_single_unreadable:
  assumes "find_state c = Inr st" and "stream c = None" and "nfiles st = 1" and "0 \<le> pos st"
    and "case filearray_at st 0 of None \<Rightarrow> True | Some name \<Rightarrow> files env name = None"
  shows "playbg_seek env c =
    (- 1, c\<lparr>datastore := Some (Datastore (Some (st\<lparr>pos := 1\<rparr>))),
            trace := trace c @ [Warn (unreadable_warning st)]\<rparr>)"
proof -
  have k: "(if nfiles st \<le> pos st then 0 else pos st) = 0" using assms(3,4) by auto
  have cs: "close_stream c = c" using assms(2) by (simp add: close_stream_def)
  show ?thesis
  proof (cases "filearray_at st 0")
    case None
    with seek_no_name [OF assms(1) refl, of env] k cs show ?thesis
      by (simp add: unreadable_warning_def)
  next
    case (Some name)
    with assms(5) have "files env name = None" by simp
    with seek_not_opened [OF assms(1) refl, of name env] k cs Some show ?thesis
      by (simp add: unreadable_warning_def)
  qed
qed

lemma readframe_single_unreadable:
  assumes "find_state c = Inr st" and "stream c = None" and "nfiles st = 1" and "0 \<le> pos st"
    and "case filearray_at st 0 of None \<Rightarrow> True | Some name \<Rightarrow> files env name = None"
  shows "playbg_readframe env c =
    (None, c\<lparr>datastore := Some (Datastore (Some (st\<lparr>pos := 1, samples := 0\<rparr>))),
            trace := trace c @ [Warn (unreadable_warning st), Warn (unreadable_warning st)]\<rparr>)"
proof -
  let ?w = "unreadable_warning st"
  let ?c2 = "c\<lparr>datastore := Some (Datastore (Some (st\<lparr>pos := 1\<rparr>))),
            trace := trace c @ [Warn ?w]\<rparr>"
  let ?st3 = "st\<lparr>pos := 2, samples := 0\<rparr>"
  let ?c3 = "?c2\<lparr>datastore := Some (Datastore (Some ?st3))\<rparr>"
  have s1: "seek_then_read env c = (None, ?c2)"
    using seek_single_unreadable [OF assms] by (simp add: seek_then_read_def)
  have fa: "filearray_at ?st3 0 = filearray_at st 0" by (simp add: filearray_at_def)
  have w3: "unreadable_warning ?st3 = ?w" by (simp add: unreadable_warning_def fa)
  have "playbg_seek env ?c3 =
      (- 1, ?c3\<lparr>datastore := Some (Datastore (Some (?st3\<lparr>pos := 1\<rparr>))),
            trace := trace ?c3 @ [Warn (unreadable_warning ?st3)]\<rparr>)"
    by (rule seek_single_unreadable) (use assms fa in simp_all)
  then have s2: "seek_then_read env ?c3 =
      (None, c\<lparr>datastore := Some (Datastore (Some (st\<lparr>pos := 1, samples := 0\<rparr>))),
            trace := trace c @ [Warn ?w, Warn ?w]\<rparr>)"
    by (simp add: seek_then_read_def w3)
  have u: "upd_state (\<lambda>s. s\<lparr>samples := 0\<rparr>) (upd_state (\<lambda>s. s\<lparr>pos := pos s + 1\<rparr>) ?c2) = ?c3"
    by (simp add: upd_state_def)
  show ?thesis
    using assms(2) s1 s2 by (simp add: playbg_readframe_def u)
qed

lemma generator_single_unreadable:
  assumes "single_unreadable env c" and "0 < n" and "find_state c = Inr st"
    and "sample_queue st + n \<le> 2147483647"
  shows "\<exists>c'. playbg_generator env c n = Some (- 1, c') \<and> single_unreadable env c' \<and>
           find_state c' = Inr (st\<lparr>pos := 1, samples := 0, sample_queue := sample_queue st + n\<rparr>) \<and>
           trace c' = trace c @ [Warn (unreadable_warning st), Warn (unreadable_warning st)]"
proof -
  let ?st0 = "st\<lparr>sample_queue := sample_queue st + n\<rparr>"
  let ?c0 = "c\<lparr>datastore := Some (Datastore (Some ?st0))\<rparr>"
  have su: "stream c = None" "nfiles st = 1" "0 \<le> pos st" "0 \<le> sample_queue st"
    "case filearray_at st 0 of None \<Rightarrow> True | Some name \<Rightarrow> files env name = None"
    using assms(1,3) by (simp_all add: single_unreadable_def)
  have q: "int32 (sample_queue st + n) = sample_queue st + n"
    using su(4) assms(2,4) by (intro int32_id) simp_all
  have fa: "filearray_at ?st0 0 = filearray_at st 0" by (simp add: filearray_at_def)
  have w0: "unreadable_warning ?st0 = unreadable_warning st"
    by (simp add: unreadable_warning_def fa)
  have rf: "playbg_readframe env ?c0 =
      (None, ?c0\<lparr>datastore := Some (Datastore (Some (?st0\<lparr>pos := 1, samples := 0\<rparr>))),
            trace := trace ?c0 @ [Warn (unreadable_warning ?st0), Warn (unreadable_warning ?st0)]\<rparr>)"
    by (rule readframe_single_unreadable) (use su fa in simp_all)
  have "generator_loop env 0 ?c0 =
      Some (- 1, ?c0\<lparr>datastore := Some (Datastore (Some (?st0\<lparr>pos := 1, samples := 0\<rparr>))),
            trace := trace ?c0 @ [Warn (unreadable_warning ?st0), Warn (unreadable_warning ?st0)]\<rparr>)"
    using su(4) assms(2) by (subst generator_loop_step [of _ ?st0]) (simp_all add: rf)
  then have g: "playbg_generator env c n =
      Some (- 1, ?c0\<lparr>datastore := Some (Datastore (Some (?st0\<lparr>pos := 1, samples := 0\<rparr>))),
            trace := trace ?c0 @ [Warn (unreadable_warning ?st0), Warn (unreadable_warning ?st0)]\<rparr>)"
    (is "_ = Some (- 1, ?c')")
    using generator_with_state [OF assms(3), of env n] q by simp
  have fs': "find_state ?c' = Inr (st\<lparr>pos := 1, samples := 0, sample_queue := sample_queue st + n\<rparr>)"
    by simp
  have "single_unreadable env ?c'"
    using su assms(2) by (simp add: single_unreadable_def fs')
  moreover have "trace ?c' = trace c @ [Warn (unreadable_warning st), Warn (unreadable_warning st)]"
    by (simp add: w0)
  ultimately show ?thesis using g fs' by blast
qed

lemma run_single_unreadable:
  "single_unreadable env c \<Longrightarrow> \<forall>n\<in>set ns. 0 < n \<Longrightarrow> find_state c = Inr st \<Longrightarrow>
   sample_queue st + sum_list ns \<le> 2147483647 \<Longrightarrow>
   \<exists>c'. run_generator env c ns = Some (map (\<lambda>n. (- 1, Some 1)) ns, c') \<and>
     single_unreadable env c' \<and>
     trace c' = trace c @ replicate (2 * length ns) (Warn (unreadable_warning st))"
proof (induction ns arbitrary: c st)
  case Nil
  then show ?case by simp
next
  case (Cons n ns)
  let ?st1 = "st\<lparr>pos := 1, samples := 0, sample_queue := sample_queue st + n\<rparr>"
  from Cons.prems have n: "0 < n" and ns: "\<forall>n\<in>set ns. 0 < n" by simp_all
  from ns have "0 \<le> sum_list ns" by (induction ns) auto
  with Cons.prems(4) have b: "sample_queue st + n \<le> 2147483647" by simp
  from Cons.prems(4) have b1: "sample_queue ?st1 + sum_list ns \<le> 2147483647" by simp
  from generator_single_unreadable [OF Cons.prems(1) n Cons.prems(3) b] obtain c1 where
    c1: "playbg_generator env c n = Some (- 1, c1)" "single_unreadable env c1"
      "find_state c1 = Inr ?st1"
      "trace c1 = trace c @ [Warn (unreadable_warning st), Warn (unreadable_warning st)]"
    by blast
  from Cons.IH [OF c1(2) ns c1(3) b1] obtain c' where
    c': "run_generator env c1 ns = Some (map (\<lambda>n. (- 1, Some 1)) ns, c')"
      "single_unreadable env c'"
      "trace c' = trace c1 @ replicate (2 * length ns) (Warn (unreadable_warning ?st1))"
    by blast
  have w: "unreadable_warning ?st1 = unreadable_warning st"
    by (simp add: unreadable_warning_def filearray_at_def)
  have "run_generator env c (n # ns) = Some (map (\<lambda>n. (- 1, Some 1)) (n # ns), c')"
    using c1(1,3) c'(1) by (simp add: state_field_def)
  moreover have "trace c' = trace c @ replicate (2 * length (n # ns)) (Warn (unreadable_warning st))"
    using c1(4) c'(3) by (simp add: w)
  ultimately show ?case using c'(2) by blast
qed

text \<open>
  Claim C6, as amended. Take an invocation with a state attached and any head of its
  loop, reached by any number \<open>k\<close> of passes that each wrote a frame, with samples still
  queued there. When the frame producer yields no frame at that head, the invocation
  returns \<open>-1\<close>. When it yields a frame and the write of that frame fails, the invocation
  returns \<open>-1\<close> after logging the failed write. The code has one error value, \<open>-1\<close>, for
  both; the failed write is told apart by its warning. When the only entry of the list
  cannot be read, every invocation of a sequence that requests at least one sample each
  time returns \<open>-1\<close>, after exactly two failed attempts on the entry, and leaves the index
  at 1, as long as the samples requested so far, which no invocation takes off the queue,
  fit the 32-bit queue.
\<close>

theorem generator_aborts:
  "(find_state c = Inr st \<and>
    loop_head env k 0
      (upd_state (\<lambda>s. s\<lparr>sample_queue := int32 (sample_queue s + n)\<rparr>) c) = Some (r, ch) \<and>
    find_state ch = Inr sth \<and> 0 < sample_queue sth \<and> playbg_readframe env ch = (None, c1) \<longrightarrow>
      playbg_generator env c n = Some (- 1, c1)) \<and>
   (find_state c = Inr st \<and>
    loop_head env k 0
      (upd_state (\<lambda>s. s\<lparr>sample_queue := int32 (sample_queue s + n)\<rparr>) c) = Some (r, ch) \<and>
    find_state ch = Inr sth \<and> 0 < sample_queue sth \<and> playbg_readframe env ch = (Some f, c1) \<and>
    write_res env f < 0 \<longrightarrow>
      playbg_generator env c n =
        Some (- 1, (account f c1)
                \<lparr>trace := trace c1 @ [Wrote f (write_res env f), Warn FailedWrite]\<rparr>)) \<and>
   (find_state c = Inr st \<and> single_unreadable env c \<and> (\<forall>n\<in>set ns. 0 < n) \<and>
    sample_queue st + sum_list ns \<le> 2147483647 \<longrightarrow>
      (\<exists>c'. run_generator env c ns = Some (map (\<lambda>n. (- 1, Some 1)) ns, c') \<and>
         single_unreadable env c' \<and>
         new_events c c' = replicate (2 * length ns) (Warn (unreadable_warning st))))"
proof -
  let ?c0 = "upd_state (\<lambda>s. s\<lparr>sample_queue := int32 (sample_queue s + n)\<rparr>) c"
  have g: "playbg_generator env c n = generator_loop env r ch"
    if "find_state c = Inr st" "loop_head env k 0 ?c0 = Some (r, ch)"
    using that(1) loop_head_loop [OF that(2)] by (simp add: playbg_generator_def)
  have a: "playbg_generator env c n = Some (- 1, c1)"
    if "find_state c = Inr st" "loop_head env k 0 ?c0 = Some (r, ch)"
      "find_state ch = Inr sth" "0 < sample_queue sth" "playbg_readframe env ch = (None, c1)"
    using g [OF that(1,2)] that(3,4,5) by (simp add: generator_loop_step)
  have b: "playbg_generator env c n =
        Some (- 1, (account f c1)
                \<lparr>trace := trace c1 @ [Wrote f (write_res env f), Warn FailedWrite]\<rparr>)"
    if "find_state c = Inr st" "loop_head env k 0 ?c0 = Some (r, ch)"
      "find_state ch = Inr sth" "0 < sample_queue sth" "playbg_readframe env ch = (Some f, c1)"
      "write_res env f < 0"
    using g [OF that(1,2)] that(3,4,5,6) by (simp add: generator_loop_step)
  have d: "\<exists>c'. run_generator env c ns = Some (map (\<lambda>n. (- 1, Some 1)) ns, c') \<and>
         single_unreadable env c' \<and>
         new_events c c' = replicate (2 * length ns) (Warn (unreadable_warning st))"
    if "find_state c = Inr st" "single_unreadable env c" "\<forall>n\<in>set ns. 0 < n"
      "sample_queue st + sum_list ns \<le> 2147483647"
    using run_single_unreadable [OF that(2,3,1,4)] by (auto simp: new_events_def)
  show ?thesis using a b d by blast
qed

theorem generator_aborts_witness:
  "single_unreadable (demo_host []) (start_on (demo_host []) ''a.wav'') \<and>
   (\<exists>c'. run_generator (demo_host []) (start_on (demo_host []) ''a.wav'') [160, 160, 160] =
      Some ([(- 1, Some 1), (- 1, Some 1), (- 1, Some 1)], c') \<and>
      new_events (start_on (demo_host []) ''a.wav'') c' =
        replicate 6 (Warn (UnableToOpen ''a.wav''))) \<and>
   map_option fst (loop_head (demo_host [(''a.wav'', 100)]) 5 0
      (upd_state (\<lambda>s. s\<lparr>sample_queue := int32 (sample_queue s + 160)\<rparr>)
         (start_on (demo_host [(''a.wav'', 100)]) ''a.wav&b.wav''))) = Some 0 \<and>
   map_option (state_field sample_queue \<circ> snd) (loop_head (demo_host [(''a.wav'', 100)]) 5 0
      (upd_state (\<lambda>s. s\<lparr>sample_queue := int32 (sample_queue s + 160)\<rparr>)
         (start_on (demo_host [(''a.wav'', 100)]) ''a.wav&b.wav''))) = Some (Some 60) \<and>
   map_option (fst \<circ> playbg_readframe (demo_host [(''a.wav'', 100)]) \<circ> snd)
     (loop_head (demo_host [(''a.wav'', 100)]) 5 0
        (upd_state (\<lambda>s. s\<lparr>sample_queue := int32 (sample_queue s + 160)\<rparr>)
           (start_on (demo_host [(''a.wav'', 100)]) ''a.wav&b.wav''))) = Some None \<and>
   map_option fst (playbg_generator (demo_host [(''a.wav'', 100)])
      (start_on (demo_host [(''a.wav'', 100)]) ''a.wav&b.wav'') 160) = Some (- 1) \<and>
   map_option (state_field sample_queue \<circ> snd)
     (loop_head ((demo_host [(''a.wav'', 100)])\<lparr>write_res := \<lambda>f. if foffset f = 20 then - 1 else 0\<rparr>)
        (Suc 0) 0
        (upd_state (\<lambda>s. s\<lparr>sample_queue := int32 (sample_queue s + 160)\<rparr>)
           (start_on (demo_host [(''a.wav'', 100)]) ''a.wav''))) = Some (Some 140) \<and>
   map_option (fst \<circ>
       playbg_readframe ((demo_host [(''a.wav'', 100)])\<lparr>write_res := \<lambda>f. if foffset f = 20 then - 1 else 0\<rparr>) \<circ>
       snd)
     (loop_head ((demo_host [(''a.wav'', 100)])\<lparr>write_res := \<lambda>f. if foffset f = 20 then - 1 else 0\<rparr>)
        (Suc 0) 0
        (upd_state (\<lambda>s. s\<lparr>sample_queue := int32 (sample_queue s + 160)\<rparr>)
           (start_on (demo_host [(''a.wav'', 100)]) ''a.wav''))) =
     Some (Some \<lparr>fsamples = 20, fname = ''a.wav'', foffset = 20\<rparr>) \<and>
   map_option fst
     (playbg_generator ((demo_host [(''a.wav'', 100)])\<lparr>write_res := \<lambda>f. if foffset f = 20 then - 1 else 0\<rparr>)
        (start_on (demo_host [(''a.wav'', 100)]) ''a.wav'') 160) = Some (- 1) \<and>
   map_option (drop 4 \<circ> trace \<circ> snd)
     (playbg_generator ((demo_host [(''a.wav'', 100)])\<lparr>write_res := \<lambda>f. if foffset f = 20 then - 1 else 0\<rparr>)
        (start_on (demo_host [(''a.wav'', 100)]) ''a.wav'') 160) =
     Some [Wrote \<lparr>fsamples = 20, fname = ''a.wav'', foffset = 20\<rparr> (- 1), Warn FailedWrite]"
proof -
  let ?h = "demo_host []"
  let ?c = "start_on ?h ''a.wav''"
  let ?st = "\<lparr>filearray = [Some ''a.wav''], pos = 0, nfiles = 1,
         origwfmt = 64, samples = 0, sample_queue = 0\<rparr>"
  have h1: "find_state ?c = Inr ?st" by (simp add: start_on_a find_state_def)
  have nf: "files ?h ''a.wav'' = None" by (simp add: demo_host_def)
  have h2: "single_unreadable ?h ?c"
    by (simp add: single_unreadable_def h1 filearray_at_def nf) (simp add: start_on_a)
  have h3: "\<forall>n\<in>set [160, 160, 160 :: int]. 0 < n" by simp
  have h4: "sample_queue ?st + sum_list [160, 160, 160] \<le> 2147483647" by simp
  have w: "unreadable_warning ?st = UnableToOpen ''a.wav''"
    by (simp add: unreadable_warning_def filearray_at_def)
  from generator_aborts [where c = ?c and st = ?st and env = ?h and ns = "[160, 160, 160]",
      THEN conjunct2, THEN conjunct2, THEN mp, OF conjI [OF h1 conjI [OF h2 conjI [OF h3 h4]]]] w
  have a: "\<exists>c'. run_generator ?h ?c [160, 160, 160] =
      Some ([(- 1, Some 1), (- 1, Some 1), (- 1, Some 1)], c') \<and>
      new_events ?c c' = replicate 6 (Warn (UnableToOpen ''a.wav''))"
    by (simp del: run_generator.simps) blast
  let ?g = "demo_host [(''a.wav'', 100)]"
  let ?d = "start_on ?g ''a.wav&b.wav''"
  let ?dq = "upd_state (\<lambda>s. s\<lparr>sample_queue := int32 (sample_queue s + 160)\<rparr>) ?d"
  let ?sd = "\<lparr>filearray = [Some ''a.wav'', Some ''b.wav''], pos = 0, nfiles = 2,
         origwfmt = 64, samples = 0, sample_queue = 0\<rparr>"
  let ?sb = "\<lparr>filearray = [Some ''a.wav'', Some ''b.wav''], pos = 0, nfiles = 2,
         origwfmt = 64, samples = 100, sample_queue = 60\<rparr>"
  let ?db = "\<lparr>datastore = Some (Datastore (Some ?sb)),
        stream = Some \<lparr>sname = ''a.wav'', sread = pcm 100 20, spos = 100\<rparr>,
        writeformat = 64, generatordata = True,
        trace =
          [Opened ''a.wav'',
           ReadFrame \<lparr>fsamples = 20, fname = ''a.wav'', foffset = 0\<rparr>,
           Wrote \<lparr>fsamples = 20, fname = ''a.wav'', foffset = 0\<rparr> 0,
           ReadFrame \<lparr>fsamples = 20, fname = ''a.wav'', foffset = 20\<rparr>,
           Wrote \<lparr>fsamples = 20, fname = ''a.wav'', foffset = 20\<rparr> 0,
           ReadFrame \<lparr>fsamples = 20, fname = ''a.wav'', foffset = 40\<rparr>,
           Wrote \<lparr>fsamples = 20, fname = ''a.wav'', foffset = 40\<rparr> 0,
           ReadFrame \<lparr>fsamples = 20, fname = ''a.wav'', foffset = 60\<rparr>,
           Wrote \<lparr>fsamples = 20, fname = ''a.wav'', foffset = 60\<rparr> 0,
           ReadFrame \<lparr>fsamples = 20, fname = ''a.wav'', foffset = 80\<rparr>,
           Wrote \<lparr>fsamples = 20, fname = ''a.wav'', foffset = 80\<rparr> 0]\<rparr>"
  have d1: "find_state ?d = Inr ?sd" by (simp add: start_on_ab find_state_def)
  have d2: "loop_head ?g 5 0 ?dq = Some (0, ?db)"
    by (simp add: start_on_ab) (simp add: model_defs eval_nat_numeral)
  have d3: "find_state ?db = Inr ?sb" by (simp add: find_state_def)
  have d4: "0 < sample_queue ?sb" by simp
  obtain c1 where d5: "playbg_readframe ?g ?db = (None, c1)"
    by (simp add: model_defs)
  have b: "playbg_generator ?g ?d 160 = Some (- 1, c1)"
    by (rule generator_aborts [where c = ?d and st = ?sd and env = ?g and n = 160 and k = 5
          and r = 0 and ch = ?db and sth = ?sb and ?c1.0 = c1,
          THEN conjunct1, THEN mp, OF conjI [OF d1 conjI [OF d2 conjI [OF d3 conjI [OF d4 d5]]]]])
  let ?hw = "(demo_host [(''a.wav'', 100)])\<lparr>write_res := \<lambda>f. if foffset f = 20 then - 1 else 0\<rparr>"
  let ?e = "start_on ?g ''a.wav''"
  let ?eq = "upd_state (\<lambda>s. s\<lparr>sample_queue := int32 (sample_queue s + 160)\<rparr>) ?e"
  let ?sa = "\<lparr>filearray = [Some ''a.wav''], pos = 0, nfiles = 1, origwfmt = 64,
           samples = 20, sample_queue = 140\<rparr>"
  let ?ea = "\<lparr>datastore = Some (Datastore (Some ?sa)),
        stream = Some \<lparr>sname = ''a.wav'', sread = pcm 100 20, spos = 20\<rparr>,
        writeformat = 64, generatordata = True,
        trace =
          [Opened ''a.wav'',
           ReadFrame \<lparr>fsamples = 20, fname = ''a.wav'', foffset = 0\<rparr>,
           Wrote \<lparr>fsamples = 20, fname = ''a.wav'', foffset = 0\<rparr> 0]\<rparr>"
  let ?f = "\<lparr>fsamples = 20, fname = ''a.wav'', foffset = 20\<rparr>"
  let ?e1 = "\<lparr>datastore = Some (Datastore (Some ?sa)),
        stream = Some \<lparr>sname = ''a.wav'', sread = pcm 100 20, spos = 40\<rparr>,
        writeformat = 64, generatordata = True,
        trace =
          [Opened ''a.wav'',
           ReadFrame \<lparr>fsamples = 20, fname = ''a.wav'', foffset = 0\<rparr>,
           Wrote \<lparr>fsamples = 20, fname = ''a.wav'', foffset = 0\<rparr> 0,
           ReadFrame ?f]\<rparr>"
  have e1: "find_state ?e = Inr ?st" by (simp add: start_on_a find_state_def)
  have e2: "loop_head ?hw (Suc 0) 0 ?eq = Some (0, ?ea)"
    by (simp add: start_on_a) (simp add: model_defs)
  have e3: "find_state ?ea = Inr ?sa" by (simp add: find_state_def)
  have e4: "0 < sample_queue ?sa" by simp
  have e5: "playbg_readframe ?hw ?ea = (Some ?f, ?e1)"
    by (simp add: model_defs)
  have e6: "write_res ?hw ?f < 0" by simp
  have c: "playbg_generator ?hw ?e 160 =
      Some (- 1, (account ?f ?e1)\<lparr>trace := trace ?e1 @ [Wrote ?f (write_res ?hw ?f), Warn FailedWrite]\<rparr>)"
    by (rule generator_aborts [where c = ?e and st = ?st and env = ?hw and n = 160 and k = "Suc 0"
          and r = 0 and ch = ?ea and sth = ?sa and ?c1.0 = ?e1 and f = ?f,
          THEN conjunct2, THEN conjunct1, THEN mp,
          OF conjI [OF e1 conjI [OF e2 conjI [OF e3 conjI [OF e4 conjI [OF e5 e6]]]]]])
  have b1: "map_option fst (loop_head ?g 5 0 ?dq) = Some 0" by (simp add: d2)
  have b2: "map_option (state_field sample_queue \<circ> snd) (loop_head ?g 5 0 ?dq) = Some (Some 60)"
    by (simp add: d2 state_field_def d3)
  have b3: "map_option (fst \<circ> playbg_readframe ?g \<circ> snd) (loop_head ?g 5 0 ?dq) = Some None"
    by (simp add: d2 d5)
  have b4: "map_option fst (playbg_generator ?g ?d 160) = Some (- 1)" by (simp add: b)
  have c1: "map_option (state_field sample_queue \<circ> snd) (loop_head ?hw (Suc 0) 0 ?eq) =
      Some (Some 140)"
    by (simp add: e2 state_field_def e3 del: loop_head.simps)
  have c2: "map_option (fst \<circ> playbg_readframe ?hw \<circ> snd) (loop_head ?hw (Suc 0) 0 ?eq) =
      Some (Some ?f)"
    by (simp add: e2 e5 del: loop_head.simps)
  have c3: "map_option fst (playbg_generator ?hw ?e 160) = Some (- 1)" by (simp add: c)
  have c4: "map_option (drop 4 \<circ> trace \<circ> snd) (playbg_generator ?hw ?e 160) =
      Some [Wrote ?f (- 1), Warn FailedWrite]"
    by (simp add: c)
  show ?thesis by (intro conjI h2 a b1 b2 b3 b4 c1 c2 c3 c4)
qed

text \<open>
  Claim C6 as stated fails: on a list whose only entry cannot be opened, an invocation
  that requests 2147483647 samples returns \<open>-1\<close> and leaves them all queued; the next
  request of one sample wraps the 32-bit queue to a negative value, so that invocation
  makes no attempt on the entry and returns 0.
\<close>

theorem unreadable_backlog_overflows:
  "map_option fst
     (run_generator (demo_host []) (start_on (demo_host []) ''a.wav'') [2147483647, 1]) =
     Some [(- 1, Some 1), (0, Some 1)] \<and>
   map_option (trace \<circ> snd)
     (run_generator (demo_host []) (start_on (demo_host []) ''a.wav'') [2147483647, 1]) =
     Some [Warn (UnableToOpen ''a.wav''), Warn (UnableToOpen ''a.wav'')] \<and>
   map_option (state_field sample_queue \<circ> snd)
     (run_generator (demo_host []) (start_on (demo_host []) ''a.wav'') [2147483647, 1]) =
     Some (Some (- 2147483648))"
  by (simp add: start_on_a) (simp add: model_defs generator_loop.simps)

section \<open>Resume continues at the recorded position\<close>







section \<open>The index wraps with a zero offset\<close>

lemma index_read:
  "ast_readframe c = (fo, c') \<Longrightarrow>
   find_state c' = find_state c \<and> (stream c' = None \<longleftrightarrow> stream c = None) \<and>
   (fo \<noteq> None \<longrightarrow> stream c \<noteq> None)"
  by (cases rule: read_cases, assumption) auto

lemma index_seek:
  assumes "playbg_seek env c = (r, c')" and "find_state c = Inr st"
    and "0 \<le> pos st" and "1 \<le> nfiles st"
  shows "\<exists>st'. find_state c' = Inr st' \<and> nfiles st' = nfiles st \<and> 0 \<le> pos st' \<and>
           samples st' = samples st \<and>
           (pos st' = pos st \<or> nfiles st \<le> pos st \<or> r \<noteq> 0) \<and>
           (r = 0 \<longrightarrow> pos st' < nfiles st' \<and> stream c' \<noteq> None) \<and>
           (r \<noteq> 0 \<longrightarrow> stream c' = None)"
  using assms(1,2)
  by (cases rule: seek_cases) (use assms(3,4) in auto)

lemma index_seek_then_read:
  assumes "seek_then_read env c = (fo, c')" and "find_state c = Inr st"
    and "0 \<le> pos st" and "1 \<le> nfiles st"
  shows "\<exists>st'. find_state c' = Inr st' \<and> nfiles st' = nfiles st \<and> 0 \<le> pos st' \<and>
           samples st' = samples st \<and>
           (fo \<noteq> None \<longrightarrow> pos st' = pos st \<or> nfiles st \<le> pos st) \<and>
           (stream c' \<noteq> None \<longrightarrow> pos st' < nfiles st') \<and>
           (fo \<noteq> None \<longrightarrow> stream c' \<noteq> None)"
  using assms(1)
proof (cases rule: seek_then_read_cases)
  case (failed r)
  with index_seek [OF failed(1) assms(2,3,4)] show ?thesis by auto
next
  case (opened c1)
  with index_seek [OF opened(1) assms(2,3,4)] index_read [OF opened(2)] show ?thesis by auto
qed

lemma index_first_try:
  "find_state (if stream c = None then c else snd (ast_readframe c)) = find_state c \<and>
   (stream (if stream c = None then c else snd (ast_readframe c)) = None \<longleftrightarrow> stream c = None)"
  by (cases "ast_readframe c") (use index_read in auto)

lemma index_playbg_readframe:
  assumes rf: "playbg_readframe env c = (fo, c')" and inv: "index_inv c"
    and fs: "find_state c = Inr st"
  shows "\<exists>st'. find_state c' = Inr st' \<and> index_inv c' \<and> nfiles st' = nfiles st \<and>
           (pos st' \<noteq> pos st \<longrightarrow> samples st' = 0) \<and>
           (fo \<noteq> None \<longrightarrow> pos st' < nfiles st')"
proof -
  from inv fs have st: "0 \<le> pos st" "1 \<le> nfiles st"
    "nfiles st \<le> pos st \<longrightarrow> samples st = 0 \<and> stream c = None"
    by (simp_all add: index_inv_def)
  from rf show ?thesis
  proof (cases rule: readframe_cases)
    case (hot s f)
    with index_read [OF hot(2)] fs st show ?thesis
      by (auto simp: index_inv_def)
  next
    case (retry c1 f)
    from index_first_try [of c] retry(1) fs have fs1: "find_state c1 = Inr st" by simp
    from index_seek_then_read [OF retry(3) fs1 st(1,2)] retry(4) st(3) show ?thesis
      by (auto simp: index_inv_def)
  next
    case (nostate c1 c2 w)
    from index_first_try [of c] nostate(1) fs have fs1: "find_state c1 = Inr st" by simp
    from index_seek_then_read [OF nostate(3) fs1 st(1,2)] nostate(4) show ?thesis by auto
  next
    case (advance c1 c2 st2)
    from index_first_try [of c] advance(1) fs have fs1: "find_state c1 = Inr st" by simp
    from index_seek_then_read [OF advance(3) fs1 st(1,2)] advance(4)
    have st2: "nfiles st2 = nfiles st" "0 \<le> pos st2" by auto
    let ?st3 = "st2\<lparr>pos := pos st2 + 1, samples := 0\<rparr>"
    let ?c3 = "c2\<lparr>datastore := Some (Datastore (Some ?st3))\<rparr>"
    have fs3: "find_state ?c3 = Inr ?st3" by simp
    from index_seek_then_read [OF advance(5) fs3] st2 st(2) show ?thesis
      by (auto simp: index_inv_def)
  qed
qed

lemma index_inv_trace [simp]: "index_inv (c\<lparr>trace := t\<rparr>) = index_inv c"
  by (simp add: index_inv_def split: sum.splits)

lemma index_generator_loop:
  "generator_loop env res c = Some y \<Longrightarrow> index_inv c \<longrightarrow> index_inv (snd y)"
proof (induction rule: generator_loop_induct)
  case (step loop env res c y)
  show ?case
  proof (cases "find_state c")
    case (Inl w)
    with step(2) show ?thesis by auto
  next
    case (Inr st)
    obtain fo c1 where rf: "playbg_readframe env c = (fo, c1)" by (cases "playbg_readframe env c")
    note upd = upd_account
    show ?thesis
    proof (cases "0 < sample_queue st")
      case False
      with step(2) Inr show ?thesis by auto
    next
      case True
      show ?thesis
      proof
        assume inv: "index_inv c"
        from index_playbg_readframe [OF rf inv Inr] obtain st1 where st1:
          "find_state c1 = Inr st1" "index_inv c1" "fo \<noteq> None \<longrightarrow> pos st1 < nfiles st1"
          by blast
        show "index_inv (snd y)"
        proof (cases fo)
          case None
          with step(2) Inr True rf st1 show ?thesis by auto
        next
          case (Some f)
          with st1 have sa: "index_inv (account f c1)"
            by (auto simp: index_inv_def)
          show ?thesis
          proof (cases "write_res env f < 0")
            case True
            with step(2) Inr \<open>0 < sample_queue st\<close> rf Some sa show ?thesis
              by (auto simp: upd ast_write_def ast_log_def emit_def)
          next
            case False
            with step(2) Inr \<open>0 < sample_queue st\<close> rf Some
            have "loop env (write_res env f) (emit (Wrote f (write_res env f)) (account f c1)) = Some y"
              by (simp add: upd ast_write_def)
            moreover have "index_inv (emit (Wrote f (write_res env f)) (account f c1))"
              using sa by (simp add: emit_def)
            ultimately show ?thesis using step(1) by blast
          qed
        qed
      qed
    qed
  qed
qed

lemma index_generator:
  assumes "playbg_generator env c n = Some (res, c')" and "index_inv c"
  shows "index_inv c'"
proof (cases "find_state c")
  case (Inl w)
  with assms show ?thesis by (auto simp: playbg_generator_def index_inv_def)
next
  case (Inr st)
  let ?c0 = "c\<lparr>datastore := Some (Datastore (Some (st\<lparr>sample_queue := int32 (sample_queue st + n)\<rparr>)))\<rparr>"
  have "index_inv ?c0" using assms(2) Inr by (simp add: index_inv_def)
  moreover have "generator_loop env 0 ?c0 = Some (res, c')"
    using assms(1) generator_with_state [OF Inr, of env n] by simp
  ultimately show ?thesis using index_generator_loop by fastforce
qed

lemma index_start:
  assumes "playbg_exec_start env c spec = (0, c')"
  shows "index_inv c'"
proof -
  from assms obtain s where s: "spec = Some s" "s \<noteq> []"
    by (cases spec) (auto simp: playbg_exec_start_def split: if_splits)
  let ?n = "if CHR ''&'' \<in> set s then count_loop (Some s) 0 else 1"
  let ?c1 = "case datastore c of None \<Rightarrow> c | Some ds \<Rightarrow> remove_playbg env ds c"
  let ?arr = "if CHR ''&'' \<in> set s then fill_loop env (Some s) 0 (replicate (nat ?n) None)
              else (replicate (nat ?n) None)[0 := ast_strdup env s]"
  let ?st = "\<lparr>filearray = ?arr, pos = 0, nfiles = ?n, origwfmt = writeformat ?c1,
               samples = 0, sample_queue = 0\<rparr>"
  let ?c2 = "?c1\<lparr>datastore := Some (Datastore (Some ?st))\<rparr>"
  from assms s have n: "1 \<le> ?n"
    by (auto simp: playbg_exec_start_def playbg_start_def Let_def split: if_splits
        simp del: count_loop.simps)
  from assms s have "ast_activate_generator env ?c2 = (0, c')"
    by (auto simp: playbg_exec_start_def playbg_start_def Let_def split: if_splits
        simp del: count_loop.simps fill_loop.simps)
  moreover have "find_state ?c2 = Inr ?st" by simp
  ultimately have "find_state c' = Inr (?st\<lparr>origwfmt := writeformat c'\<rparr>)"
    using activate_state [of ?c2 ?st env] by auto
  then show ?thesis using n by (simp add: index_inv_def)
qed


lemma upd_advance:
  "find_state c = Inr st \<Longrightarrow>
   upd_state (\<lambda>s. s\<lparr>samples := 0\<rparr>) (upd_state (\<lambda>s. s\<lparr>pos := pos s + 1\<rparr>) c) =
     c\<lparr>datastore := Some (Datastore (Some (st\<lparr>pos := pos st + 1, samples := 0\<rparr>)))\<rparr>"
  by (simp add: upd_state_def)

lemma readframe_at_end_of_list:
  assumes fs: "find_state c = Inr st"
    and last: "0 \<le> pos st" "pos st + 1 = nfiles st"
    and str: "stream c = Some s" and ended: "sread s (spos s) = None"
    and name: "filearray_at st (pos st) = Some name" and rd: "files env name = Some rd"
    and ended': "rd (samples st) = None"
    and name0: "filearray_at st 0 = Some name0" and rd0: "files env name0 = Some rd0"
    and n: "rd0 0 = Some n"
  shows "\<exists>c'. playbg_readframe env c = (Some \<lparr>fsamples = n, fname = name0, foffset = 0\<rparr>, c') \<and>
           find_state c' = Inr (st\<lparr>pos := 0, samples := 0\<rparr>) \<and>
           stream c' = Some \<lparr>sname = name0, sread = rd0, spos = n\<rparr> \<and>
           new_events c c' =
             [ReadEnd (sname s), Closed (sname s), Opened name] @
             (if samples st = 0 then [] else [Sought name (samples st)]) @
             [ReadEnd name, Closed name, Opened name0,
              ReadFrame \<lparr>fsamples = n, fname = name0, foffset = 0\<rparr>]"
proof -
  let ?sk = "if samples st = 0 then [] else [Sought name (samples st)]"
  let ?c1 = "c\<lparr>trace := trace c @ [ReadEnd (sname s)]\<rparr>"
  have r1: "ast_readframe c = (None, ?c1)" by (rule read_end [OF str ended])
  have fs1: "find_state ?c1 = Inr st" using fs by simp
  have k1: "pos st = (if nfiles st \<le> pos st then 0 else pos st)" using last by simp
  let ?c2 = "(close_stream ?c1)\<lparr>datastore := Some (Datastore (Some (st\<lparr>pos := pos st\<rparr>))),
                 stream := Some \<lparr>sname = name, sread = rd, spos = samples st\<rparr>,
                 trace := trace (close_stream ?c1) @ Opened name # ?sk\<rparr>"
  have s2: "playbg_seek env ?c1 = (0, ?c2)" by (rule seek_opened [OF fs1 k1 name rd])
  have str2: "stream ?c2 = Some \<lparr>sname = name, sread = rd, spos = samples st\<rparr>" by simp
  have end2: "sread \<lparr>sname = name, sread = rd, spos = samples st\<rparr>
      (spos \<lparr>sname = name, sread = rd, spos = samples st\<rparr>) = None"
    using ended' by simp
  let ?c3 = "?c2\<lparr>trace := trace ?c2 @ [ReadEnd name]\<rparr>"
  have r2: "ast_readframe ?c2 = (None, ?c3)"
    using read_end [OF str2 end2] by (simp only: ast_filestream.select_convs)
  have st2: "seek_then_read env ?c1 = (None, ?c3)"
    by (simp only: seek_then_read_def s2 prod.case simp_thms if_True r2)
  have fs3: "find_state ?c3 = Inr st" by simp
  let ?st4 = "st\<lparr>pos := pos st + 1, samples := 0\<rparr>"
  let ?c4 = "?c3\<lparr>datastore := Some (Datastore (Some ?st4))\<rparr>"
  have adv: "upd_state (\<lambda>s. s\<lparr>samples := 0\<rparr>) (upd_state (\<lambda>s. s\<lparr>pos := pos s + 1\<rparr>) ?c3) = ?c4"
    by (rule upd_advance [OF fs3])
  have fs4: "find_state ?c4 = Inr ?st4" by simp
  have k4: "0 = (if nfiles ?st4 \<le> pos ?st4 then 0 else pos ?st4)" using last by simp
  have name4: "filearray_at ?st4 0 = Some name0" using name0 by simp
  let ?c5 = "(close_stream ?c4)\<lparr>datastore := Some (Datastore (Some (?st4\<lparr>pos := 0\<rparr>))),
                 stream := Some \<lparr>sname = name0, sread = rd0, spos = samples ?st4\<rparr>,
                 trace := trace (close_stream ?c4) @ Opened name0 #
                   (if samples ?st4 = 0 then [] else [Sought name0 (samples ?st4)])\<rparr>"
  have s5: "playbg_seek env ?c4 = (0, ?c5)" by (rule seek_opened [OF fs4 k4 name4 rd0])
  have str5: "stream ?c5 = Some \<lparr>sname = name0, sread = rd0, spos = 0\<rparr>" by simp
  have n5: "sread \<lparr>sname = name0, sread = rd0, spos = 0\<rparr>
      (spos \<lparr>sname = name0, sread = rd0, spos = 0\<rparr>) = Some n"
    using n by simp
  let ?f = "\<lparr>fsamples = n, fname = name0, foffset = 0\<rparr>"
  let ?c6 = "?c5\<lparr>stream := Some \<lparr>sname = name0, sread = rd0, spos = n\<rparr>,
              trace := trace ?c5 @ [ReadFrame ?f]\<rparr>"
  have r5: "ast_readframe ?c5 = (Some ?f, ?c6)"
    using read_frame [OF str5 n5]
    by (simp only: ast_filestream.select_convs ast_filestream.update_convs add_0)
  have st5: "seek_then_read env ?c4 = (Some ?f, ?c6)"
    by (simp only: seek_then_read_def s5 prod.case simp_thms if_True r5)
  have rf: "playbg_readframe env c = (Some ?f, ?c6)"
    by (simp only: playbg_readframe_def str option.case r1 prod.case st2 fs3 sum.case adv st5)
  have f6: "find_state ?c6 = Inr (st\<lparr>pos := 0, samples := 0\<rparr>)" by simp
  have s6: "stream ?c6 = Some \<lparr>sname = name0, sread = rd0, spos = n\<rparr>" by simp
  have t6: "trace ?c6 = trace c @ ([ReadEnd (sname s), Closed (sname s), Opened name] @ ?sk @
      [ReadEnd name, Closed name, Opened name0, ReadFrame ?f])"
    using str by (simp add: trace_close_stream)
  have e6: "new_events c ?c6 = [ReadEnd (sname s), Closed (sname s), Opened name] @ ?sk @
      [ReadEnd name, Closed name, Opened name0, ReadFrame ?f]"
    by (rule new_events_append [OF t6])
  show ?thesis by (intro exI [of _ ?c6] conjI rf f6 s6 e6)
qed

text \<open>
  Claim C3, as amended. The invariant \<open>index_inv\<close> (the index is not negative, and
  whenever it has reached \<open>nfiles\<close> the sample offset is 0 and no stream is open) holds
  after a successful Start and is kept by every generator invocation and every frame
  request; a frame request that changes the index leaves the sample offset at 0, and a
  frame is only returned with the index inside the list. Whatever the channel holds, the
  seek step that finds the index at or past \<open>nfiles\<close> sets it to 0 before it opens, and
  opens the first resource; it calls \<open>ast_seekstream\<close> only for a nonzero sample offset.
  For a list of any length: when the stream of the last entry is exhausted, the frame
  request reopens that entry at the sample offset, finds nothing, and then sets the sample
  offset to 0, takes the index past the end and back to 0, opens the first resource and,
  with no seek call, reads its frame at offset 0. In the scenario of a single resource of
  100 samples (frames of 20) and a request of 160 samples: the five frames of the resource
  are written, the exhausted resource is reopened and sought to offset 100 and yields
  nothing, the index goes to 1 and wraps to 0 with the offset reset to 0, the resource is
  reopened and read from its start with no seek call, and three frames (60 samples) are
  written from offsets 0, 20 and 40.
\<close>

theorem index_wraps_to_zero:
  "(playbg_exec_start env c0 spec = (0, c) \<longrightarrow> index_inv c) \<and>
   (index_inv c \<and> playbg_generator env c n = Some (res, c') \<longrightarrow> index_inv c') \<and>
   (index_inv c \<and> find_state c = Inr st \<and> playbg_readframe env c = (fo, c1) \<longrightarrow>
      (\<exists>st1. find_state c1 = Inr st1 \<and> index_inv c1 \<and>
         (pos st1 \<noteq> pos st \<longrightarrow> samples st1 = 0) \<and>
         (fo \<noteq> None \<longrightarrow> pos st1 < nfiles st1))) \<and>
   (find_state c = Inr st \<and> nfiles st \<le> pos st \<and>
    filearray_at st 0 = Some name \<and> files env name = Some rd \<longrightarrow>
      playbg_seek env c =
        (0, (close_stream c)
              \<lparr>datastore := Some (Datastore (Some (st\<lparr>pos := 0\<rparr>))),
               stream := Some \<lparr>sname = name, sread = rd, spos = samples st\<rparr>,
               trace := trace (close_stream c) @ Opened name #
                 (if samples st = 0 then [] else [Sought name (samples st)])\<rparr>)) \<and>
   (find_state c = Inr st \<and> 0 \<le> pos st \<and> pos st + 1 = nfiles st \<and>
    stream c = Some s \<and> sread s (spos s) = None \<and>
    filearray_at st (pos st) = Some name \<and> files env name = Some rd \<and>
    rd (samples st) = None \<and>
    filearray_at st 0 = Some name0 \<and> files env name0 = Some rd0 \<and> rd0 0 = Some m \<longrightarrow>
      (\<exists>c2. playbg_readframe env c =
               (Some \<lparr>fsamples = m, fname = name0, foffset = 0\<rparr>, c2) \<and>
         find_state c2 = Inr (st\<lparr>pos := 0, samples := 0\<rparr>) \<and>
         stream c2 = Some \<lparr>sname = name0, sread = rd0, spos = m\<rparr> \<and>
         new_events c c2 =
           [ReadEnd (sname s), Closed (sname s), Opened name] @
           (if samples st = 0 then [] else [Sought name (samples st)]) @
           [ReadEnd name, Closed name, Opened name0,
            ReadFrame \<lparr>fsamples = m, fname = name0, foffset = 0\<rparr>])) \<and>
   playbg_generator (demo_host [(''a.wav'', 100)])
       (start_on (demo_host [(''a.wav'', 100)]) ''a.wav'') 160 =
     Some (0,
       \<lparr>datastore = Some (Datastore (Some
          \<lparr>filearray = [Some ''a.wav''], pos = 0, nfiles = 1, origwfmt = 64,
           samples = 60, sample_queue = 0\<rparr>)),
        stream = Some \<lparr>sname = ''a.wav'', sread = pcm 100 20, spos = 60\<rparr>,
        writeformat = 64, generatordata = True,
        trace =
          [Opened ''a.wav'',
           ReadFrame \<lparr>fsamples = 20, fname = ''a.wav'', foffset = 0\<rparr>,
           Wrote \<lparr>fsamples = 20, fname = ''a.wav'', foffset = 0\<rparr> 0,
           ReadFrame \<lparr>fsamples = 20, fname = ''a.wav'', foffset = 20\<rparr>,
           Wrote \<lparr>fsamples = 20, fname = ''a.wav'', foffset = 20\<rparr> 0,
           ReadFrame \<lparr>fsamples = 20, fname = ''a.wav'', foffset = 40\<rparr>,
           Wrote \<lparr>fsamples = 20, fname = ''a.wav'', foffset = 40\<rparr> 0,
           ReadFrame \<lparr>fsamples = 20, fname = ''a.wav'', foffset = 60\<rparr>,
           Wrote \<lparr>fsamples = 20, fname = ''a.wav'', foffset = 60\<rparr> 0,
           ReadFrame \<lparr>fsamples = 20, fname = ''a.wav'', foffset = 80\<rparr>,
           Wrote \<lparr>fsamples = 20, fname = ''a.wav'', foffset = 80\<rparr> 0,
           ReadEnd ''a.wav'', Closed ''a.wav'', Opened ''a.wav'', Sought ''a.wav'' 100,
           ReadEnd ''a.wav'', Closed ''a.wav'', Opened ''a.wav'',
           ReadFrame \<lparr>fsamples = 20, fname = ''a.wav'', foffset = 0\<rparr>,
           Wrote \<lparr>fsamples = 20, fname = ''a.wav'', foffset = 0\<rparr> 0,
           ReadFrame \<lparr>fsamples = 20, fname = ''a.wav'', foffset = 20\<rparr>,
           Wrote \<lparr>fsamples = 20, fname = ''a.wav'', foffset = 20\<rparr> 0,
           ReadFrame \<lparr>fsamples = 20, fname = ''a.wav'', foffset = 40\<rparr>,
           Wrote \<lparr>fsamples = 20, fname = ''a.wav'', foffset = 40\<rparr> 0]\<rparr>)"
proof (intro conjI impI)
  assume "playbg_exec_start env c0 spec = (0, c)"
  then show "index_inv c" by (rule index_start)
next
  assume "index_inv c \<and> playbg_generator env c n = Some (res, c')"
  then show "index_inv c'" using index_generator by blast
next
  assume "index_inv c \<and> find_state c = Inr st \<and> playbg_readframe env c = (fo, c1)"
  then have h: "index_inv c" "find_state c = Inr st" "playbg_readframe env c = (fo, c1)"
    by simp_all
  from index_playbg_readframe [OF h(3,1,2)]
  show "\<exists>st1. find_state c1 = Inr st1 \<and> index_inv c1 \<and>
         (pos st1 \<noteq> pos st \<longrightarrow> samples st1 = 0) \<and>
         (fo \<noteq> None \<longrightarrow> pos st1 < nfiles st1)"
    by blast
next
  assume "find_state c = Inr st \<and> nfiles st \<le> pos st \<and>
    filearray_at st 0 = Some name \<and> files env name = Some rd"
  then have h: "find_state c = Inr st" "nfiles st \<le> pos st"
    "filearray_at st 0 = Some name" "files env name = Some rd"
    by simp_all
  have k: "0 = (if nfiles st \<le> pos st then 0 else pos st)" using h(2) by simp
  show "playbg_seek env c =
        (0, (close_stream c)
              \<lparr>datastore := Some (Datastore (Some (st\<lparr>pos := 0\<rparr>))),
               stream := Some \<lparr>sname = name, sread = rd, spos = samples st\<rparr>,
               trace := trace (close_stream c) @ Opened name #
                 (if samples st = 0 then [] else [Sought name (samples st)])\<rparr>)"
    by (rule seek_opened [OF h(1) k h(3) h(4)])
next
  assume "find_state c = Inr st \<and> 0 \<le> pos st \<and> pos st + 1 = nfiles st \<and>
    stream c = Some s \<and> sread s (spos s) = None \<and>
    filearray_at st (pos st) = Some name \<and> files env name = Some rd \<and>
    rd (samples st) = None \<and>
    filearray_at st 0 = Some name0 \<and> files env name0 = Some rd0 \<and> rd0 0 = Some m"
  then have h: "find_state c = Inr st" "0 \<le> pos st" "pos st + 1 = nfiles st"
    "stream c = Some s" "sread s (spos s) = None"
    "filearray_at st (pos st) = Some name" "files env name = Some rd"
    "rd (samples st) = None"
    "filearray_at st 0 = Some name0" "files env name0 = Some rd0" "rd0 0 = Some m"
    by simp_all
  show "\<exists>c2. playbg_readframe env c =
               (Some \<lparr>fsamples = m, fname = name0, foffset = 0\<rparr>, c2) \<and>
         find_state c2 = Inr (st\<lparr>pos := 0, samples := 0\<rparr>) \<and>
         stream c2 = Some \<lparr>sname = name0, sread = rd0, spos = m\<rparr> \<and>
         new_events c c2 =
           [ReadEnd (sname s), Closed (sname s), Opened name] @
           (if samples st = 0 then [] else [Sought name (samples st)]) @
           [ReadEnd name, Closed name, Opened name0,
            ReadFrame \<lparr>fsamples = m, fname = name0, foffset = 0\<rparr>]"
    by (rule readframe_at_end_of_list [OF h])
next
  show "playbg_generator (demo_host [(''a.wav'', 100)])
       (start_on (demo_host [(''a.wav'', 100)]) ''a.wav'') 160 =
     Some (0,
       \<lparr>datastore = Some (Datastore (Some
          \<lparr>filearray = [Some ''a.wav''], pos = 0, nfiles = 1, origwfmt = 64,
           samples = 60, sample_queue = 0\<rparr>)),
        stream = Some \<lparr>sname = ''a.wav'', sread = pcm 100 20, spos = 60\<rparr>,
        writeformat = 64, generatordata = True,
        trace =
          [Opened ''a.wav'',
           ReadFrame \<lparr>fsamples = 20, fname = ''a.wav'', foffset = 0\<rparr>,
           Wrote \<lparr>fsamples = 20, fname = ''a.wav'', foffset = 0\<rparr> 0,
           ReadFrame \<lparr>fsamples = 20, fname = ''a.wav'', foffset = 20\<rparr>,
           Wrote \<lparr>fsamples = 20, fname = ''a.wav'', foffset = 20\<rparr> 0,
           ReadFrame \<lparr>fsamples = 20, fname = ''a.wav'', foffset = 40\<rparr>,
           Wrote \<lparr>fsamples = 20, fname = ''a.wav'', foffset = 40\<rparr> 0,
           ReadFrame \<lparr>fsamples = 20, fname = ''a.wav'', foffset = 60\<rparr>,
           Wrote \<lparr>fsamples = 20, fname = ''a.wav'', foffset = 60\<rparr> 0,
           ReadFrame \<lparr>fsamples = 20, fname = ''a.wav'', foffset = 80\<rparr>,
           Wrote \<lparr>fsamples = 20, fname = ''a.wav'', foffset = 80\<rparr> 0,
           ReadEnd ''a.wav'', Closed ''a.wav'', Opened ''a.wav'', Sought ''a.wav'' 100,
           ReadEnd ''a.wav'', Closed ''a.wav'', Opened ''a.wav'',
           ReadFrame \<lparr>fsamples = 20, fname = ''a.wav'', foffset = 0\<rparr>,
           Wrote \<lparr>fsamples = 20, fname = ''a.wav'', foffset = 0\<rparr> 0,
           ReadFrame \<lparr>fsamples = 20, fname = ''a.wav'', foffset = 20\<rparr>,
           Wrote \<lparr>fsamples = 20, fname = ''a.wav'', foffset = 20\<rparr> 0,
           ReadFrame \<lparr>fsamples = 20, fname = ''a.wav'', foffset = 40\<rparr>,
           Wrote \<lparr>fsamples = 20, fname = ''a.wav'', foffset = 40\<rparr> 0]\<rparr>)"
    by (simp add: start_on_a) (simp add: model_defs generator_loop.simps)
qed

theorem index_wraps_to_zero_witness:
  "playbg_exec_start (demo_host [(''a.wav'', 100)]) idle_channel (Some ''a.wav'') =
     (0, start_on (demo_host [(''a.wav'', 100)]) ''a.wav'') \<and>
   index_inv (start_on (demo_host [(''a.wav'', 100)]) ''a.wav'') \<and>
   index_inv (snd (the (playbg_generator (demo_host [(''a.wav'', 100)])
      (start_on (demo_host [(''a.wav'', 100)]) ''a.wav'') 160))) \<and>
   index_inv (snd (playbg_readframe (demo_host [(''a.wav'', 100)])
      (start_on (demo_host [(''a.wav'', 100)]) ''a.wav''))) \<and>
   playbg_seek (demo_host [(''a.wav'', 100)])
      \<lparr>datastore = Some (Datastore (Some
         \<lparr>filearray = [Some ''a.wav''], pos = 1, nfiles = 1, origwfmt = 64,
          samples = 0, sample_queue = 60\<rparr>)),
       stream = Some \<lparr>sname = ''a.wav'', sread = pcm 100 20, spos = 100\<rparr>,
       writeformat = 64, generatordata = True, trace = []\<rparr> =
     (0,
      \<lparr>datastore = Some (Datastore (Some
         \<lparr>filearray = [Some ''a.wav''], pos = 0, nfiles = 1, origwfmt = 64,
          samples = 0, sample_queue = 60\<rparr>)),
       stream = Some \<lparr>sname = ''a.wav'', sread = pcm 100 20, spos = 0\<rparr>,
       writeformat = 64, generatordata = True,
       trace = [Closed ''a.wav'', Opened ''a.wav'']\<rparr>) \<and>
   (\<exists>c2. playbg_readframe (demo_host [(''a.wav'', 100)])
      \<lparr>datastore = Some (Datastore (Some
         \<lparr>filearray = [Some ''a.wav''], pos = 0, nfiles = 1, origwfmt = 64,
          samples = 100, sample_queue = 60\<rparr>)),
       stream = Some \<lparr>sname = ''a.wav'', sread = pcm 100 20, spos = 100\<rparr>,
       writeformat = 64, generatordata = True, trace = []\<rparr> =
       (Some \<lparr>fsamples = 20, fname = ''a.wav'', foffset = 0\<rparr>, c2) \<and>
      find_state c2 = Inr
         \<lparr>filearray = [Some ''a.wav''], pos = 0, nfiles = 1, origwfmt = 64,
          samples = 0, sample_queue = 60\<rparr> \<and>
      stream c2 = Some \<lparr>sname = ''a.wav'', sread = pcm 100 20, spos = 20\<rparr> \<and>
      trace c2 =
        [ReadEnd ''a.wav'', Closed ''a.wav'', Opened ''a.wav'', Sought ''a.wav'' 100,
         ReadEnd ''a.wav'', Closed ''a.wav'', Opened ''a.wav'',
         ReadFrame \<lparr>fsamples = 20, fname = ''a.wav'', foffset = 0\<rparr>])"
proof -
  let ?h = "demo_host [(''a.wav'', 100)]"
  let ?c = "start_on ?h ''a.wav''"
  let ?st = "\<lparr>filearray = [Some ''a.wav''], pos = 0, nfiles = 1,
         origwfmt = 64, samples = 0, sample_queue = 0\<rparr>"
  let ?sw = "\<lparr>filearray = [Some ''a.wav''], pos = 1, nfiles = 1, origwfmt = 64,
          samples = 0, sample_queue = 60\<rparr>"
  let ?s = "\<lparr>sname = ''a.wav'', sread = pcm 100 20, spos = 100\<rparr>"
  let ?cw = "\<lparr>datastore = Some (Datastore (Some ?sw)), stream = Some ?s,
       writeformat = 64, generatordata = True, trace = []\<rparr>"
  let ?se = "\<lparr>filearray = [Some ''a.wav''], pos = 0, nfiles = 1, origwfmt = 64,
          samples = 100, sample_queue = 60\<rparr>"
  let ?ce = "\<lparr>datastore = Some (Datastore (Some ?se)), stream = Some ?s,
       writeformat = 64, generatordata = True, trace = []\<rparr>"
  have st: "playbg_exec_start ?h idle_channel (Some ''a.wav'') = (0, ?c)"
    by (simp add: start_on_a) (simp add: model_defs)
  have fs: "find_state ?c = Inr ?st" by (simp add: start_on_a find_state_def)
  have i1: "index_inv ?c"
    by (rule index_wraps_to_zero [THEN conjunct1, THEN mp, OF st])
  obtain c' where g: "playbg_generator ?h ?c 160 = Some (0, c')"
    by (rule that [OF index_wraps_to_zero
          [THEN conjunct2, THEN conjunct2, THEN conjunct2, THEN conjunct2, THEN conjunct2]])
  have "index_inv c'"
    by (rule index_wraps_to_zero
          [THEN conjunct2, THEN conjunct1, THEN mp, OF conjI [OF i1 g]])
  then have i2: "index_inv (snd (the (playbg_generator ?h ?c 160)))" using g by simp
  obtain fo c1 where rf: "playbg_readframe ?h ?c = (fo, c1)"
    by (cases "playbg_readframe ?h ?c")
  have "\<exists>st1. find_state c1 = Inr st1 \<and> index_inv c1 \<and>
         (pos st1 \<noteq> pos ?st \<longrightarrow> samples st1 = 0) \<and>
         (fo \<noteq> None \<longrightarrow> pos st1 < nfiles st1)"
    by (rule index_wraps_to_zero
          [THEN conjunct2, THEN conjunct2, THEN conjunct1, THEN mp,
           OF conjI [OF i1 conjI [OF fs rf]]])
  then have i3: "index_inv (snd (playbg_readframe ?h ?c))" using rf by auto
  have fsw: "find_state ?cw = Inr ?sw" by (simp add: find_state_def)
  have w: "nfiles ?sw \<le> pos ?sw" "filearray_at ?sw 0 = Some ''a.wav''"
    "files ?h ''a.wav'' = Some (pcm 100 20)"
    by (simp_all add: filearray_at_def demo_host_def)
  have "playbg_seek ?h ?cw =
      (0, (close_stream ?cw)
            \<lparr>datastore := Some (Datastore (Some (?sw\<lparr>pos := 0\<rparr>))),
             stream := Some \<lparr>sname = ''a.wav'', sread = pcm 100 20, spos = samples ?sw\<rparr>,
             trace := trace (close_stream ?cw) @ Opened ''a.wav'' #
               (if samples ?sw = 0 then [] else [Sought ''a.wav'' (samples ?sw)])\<rparr>)"
    by (rule index_wraps_to_zero
          [THEN conjunct2, THEN conjunct2, THEN conjunct2, THEN conjunct1, THEN mp,
           OF conjI [OF fsw conjI [OF w(1) conjI [OF w(2) w(3)]]]])
  then have sk: "playbg_seek ?h ?cw =
     (0, \<lparr>datastore = Some (Datastore (Some
         \<lparr>filearray = [Some ''a.wav''], pos = 0, nfiles = 1, origwfmt = 64,
          samples = 0, sample_queue = 60\<rparr>)),
       stream = Some \<lparr>sname = ''a.wav'', sread = pcm 100 20, spos = 0\<rparr>,
       writeformat = 64, generatordata = True,
       trace = [Closed ''a.wav'', Opened ''a.wav'']\<rparr>)"
    by (simp add: close_stream_def emit_def)
  have fse: "find_state ?ce = Inr ?se" by (simp add: find_state_def)
  have e: "0 \<le> pos ?se" "pos ?se + 1 = nfiles ?se" "stream ?ce = Some ?s"
    "sread ?s (spos ?s) = None" "filearray_at ?se (pos ?se) = Some ''a.wav''"
    "pcm 100 20 (samples ?se) = None" "filearray_at ?se 0 = Some ''a.wav''"
    "pcm 100 20 0 = Some 20"
    by (simp_all add: filearray_at_def pcm_def)
  have "\<exists>c2. playbg_readframe ?h ?ce =
               (Some \<lparr>fsamples = 20, fname = ''a.wav'', foffset = 0\<rparr>, c2) \<and>
         find_state c2 = Inr (?se\<lparr>pos := 0, samples := 0\<rparr>) \<and>
         stream c2 = Some \<lparr>sname = ''a.wav'', sread = pcm 100 20, spos = 20\<rparr> \<and>
         new_events ?ce c2 =
           [ReadEnd (sname ?s), Closed (sname ?s), Opened ''a.wav''] @
           (if samples ?se = 0 then [] else [Sought ''a.wav'' (samples ?se)]) @
           [ReadEnd ''a.wav'', Closed ''a.wav'', Opened ''a.wav'',
            ReadFrame \<lparr>fsamples = 20, fname = ''a.wav'', foffset = 0\<rparr>]"
    by (rule index_wraps_to_zero
          [THEN conjunct2, THEN conjunct2, THEN conjunct2, THEN conjunct2, THEN conjunct1,
           THEN mp,
           OF conjI [OF fse conjI [OF e(1) conjI [OF e(2) conjI [OF e(3) conjI [OF e(4)
              conjI [OF e(5) conjI [OF w(3) conjI [OF e(6) conjI [OF e(7)
              conjI [OF w(3) e(8)]]]]]]]]]]])
  then obtain c2 where c2:
    "playbg_readframe ?h ?ce = (Some \<lparr>fsamples = 20, fname = ''a.wav'', foffset = 0\<rparr>, c2)"
    "find_state c2 = Inr (?se\<lparr>pos := 0, samples := 0\<rparr>)"
    "stream c2 = Some \<lparr>sname = ''a.wav'', sread = pcm 100 20, spos = 20\<rparr>"
    "new_events ?ce c2 =
           [ReadEnd (sname ?s), Closed (sname ?s), Opened ''a.wav''] @
           (if samples ?se = 0 then [] else [Sought ''a.wav'' (samples ?se)]) @
           [ReadEnd ''a.wav'', Closed ''a.wav'', Opened ''a.wav'',
            ReadFrame \<lparr>fsamples = 20, fname = ''a.wav'', foffset = 0\<rparr>]"
    by - (elim exE conjE, rule that)
  have c2s: "find_state c2 = Inr
         \<lparr>filearray = [Some ''a.wav''], pos = 0, nfiles = 1, origwfmt = 64,
          samples = 0, sample_queue = 60\<rparr>"
    using c2(2) by simp
  have c2t: "trace c2 =
        [ReadEnd ''a.wav'', Closed ''a.wav'', Opened ''a.wav'', Sought ''a.wav'' 100,
         ReadEnd ''a.wav'', Closed ''a.wav'', Opened ''a.wav'',
         ReadFrame \<lparr>fsamples = 20, fname = ''a.wav'', foffset = 0\<rparr>]"
    using c2(4) by (simp add: new_events_def)
  have wr: "\<exists>c2. playbg_readframe ?h ?ce =
       (Some \<lparr>fsamples = 20, fname = ''a.wav'', foffset = 0\<rparr>, c2) \<and>
      find_state c2 = Inr
         \<lparr>filearray = [Some ''a.wav''], pos = 0, nfiles = 1, origwfmt = 64,
          samples = 0, sample_queue = 60\<rparr> \<and>
      stream c2 = Some \<lparr>sname = ''a.wav'', sread = pcm 100 20, spos = 20\<rparr> \<and>
      trace c2 =
        [ReadEnd ''a.wav'', Closed ''a.wav'', Opened ''a.wav'', Sought ''a.wav'' 100,
         ReadEnd ''a.wav'', Closed ''a.wav'', Opened ''a.wav'',
         ReadFrame \<lparr>fsamples = 20, fname = ''a.wav'', foffset = 0\<rparr>]"
    by (intro exI [of _ c2] conjI c2(1) c2s c2(3) c2t)
  show ?thesis by (intro conjI st i1 i2 i3 sk wr)
qed

text \<open>
  Claim C3 as stated fails in its last part: in the scenario the only seek call is the
  one to offset 100, on the retry that reopens the exhausted resource. After the wrap the
  resource is reopened and read from offset 0 with no seek call.
\<close>

theorem wrap_without_seek:
  "map_option (sought \<circ> trace \<circ> snd)
     (playbg_generator (demo_host [(''a.wav'', 100)])
        (start_on (demo_host [(''a.wav'', 100)]) ''a.wav'') 160) =
     Some [(''a.wav'', 100)] \<and>
   map_option (opened \<circ> trace \<circ> snd)
     (playbg_generator (demo_host [(''a.wav'', 100)])
        (start_on (demo_host [(''a.wav'', 100)]) ''a.wav'') 160) =
     Some [''a.wav'', ''a.wav'', ''a.wav'']"
  by (simp add: start_on_a) (simp add: model_defs generator_loop.simps)

section \<open>Visiting the list in order\<close>

lemma readframe_hot:
  assumes "stream c = Some s" and "sread s (spos s) = Some n"
  shows "playbg_readframe env c =
           (Some \<lparr>fsamples = n, fname = sname s, foffset = spos s\<rparr>,
            c\<lparr>stream := Some (s\<lparr>spos := spos s + n\<rparr>),
              trace := trace c @ [ReadFrame \<lparr>fsamples = n, fname = sname s, foffset = spos s\<rparr>]\<rparr>)"
  using assms by (simp add: playbg_readframe_def read_frame)

lemma play_resource:
  assumes writes: "\<forall>f. 0 \<le> write_res env f" and res: "resource_of rd len"
  shows "find_state c = Inr st \<Longrightarrow>
     stream c = Some \<lparr>sname = name, sread = rd, spos = samples st\<rparr> \<Longrightarrow>
     sample_queue st = len - samples st \<Longrightarrow> 0 \<le> samples st \<Longrightarrow> samples st \<le> len \<Longrightarrow>
     0 \<le> r \<Longrightarrow>
     \<exists>r' c'. generator_loop env r c = Some (r', c') \<and> 0 \<le> r' \<and>
        find_state c' = Inr (st\<lparr>samples := len, sample_queue := 0\<rparr>) \<and>
        stream c' = Some \<lparr>sname = name, sread = rd, spos = len\<rparr>"
proof (induction "nat (len - samples st)" arbitrary: c st r rule: less_induct)
  case less
  show ?case
  proof (cases "samples st = len")
    case True
    with less.prems have "generator_loop env r c = Some (r, c)"
      by (simp add: generator_loop_step)
    moreover have "st\<lparr>samples := len, sample_queue := 0\<rparr> = st"
      using True less.prems by simp
    ultimately show ?thesis using less.prems True by auto
  next
    case False
    with less.prems have lt: "samples st < len" by simp
    with res less.prems obtain n where n: "rd (samples st) = Some n" "0 < n" "samples st + n \<le> len"
      by (auto simp: resource_of_def)
    let ?f = "\<lparr>fsamples = n, fname = name, foffset = samples st\<rparr>"
    let ?c1 = "c\<lparr>stream := Some \<lparr>sname = name, sread = rd, spos = samples st + n\<rparr>,
              trace := trace c @ [ReadFrame ?f]\<rparr>"
    let ?st2 = "st\<lparr>samples := samples st + n, sample_queue := sample_queue st - n\<rparr>"
    let ?c2 = "(account ?f ?c1)\<lparr>trace := trace ?c1 @ [Wrote ?f (write_res env ?f)]\<rparr>"
    have rf: "playbg_readframe env c = (Some ?f, ?c1)"
      using readframe_hot [OF less.prems(2), of n env] n(1) by simp
    have w: "\<not> write_res env ?f < 0" using writes by (simp add: not_less)
    have step: "generator_loop env r c = generator_loop env (write_res env ?f) ?c2"
      using less.prems(1,3) lt rf w by (simp add: generator_loop_step)
    from res have lmax: "len \<le> 2147483647" by (simp add: resource_of_def)
    have a32: "int32 (samples st + n) = samples st + n"
      using n less.prems(4) lmax by (intro int32_id) simp_all
    have q32: "int32 (sample_queue st - n) = sample_queue st - n"
      using n less.prems(3,4) lmax by (intro int32_id) simp_all
    have fs2: "find_state ?c2 = Inr ?st2" using less.prems(1) a32 q32 by simp
    have str2: "stream ?c2 = Some \<lparr>sname = name, sread = rd, spos = samples ?st2\<rparr>" by simp
    have "nat (len - samples ?st2) < nat (len - samples st)" using n lt by simp
    from less.hyps [OF this fs2 str2, of "write_res env ?f"] less.prems n writes
    obtain r' c' where "generator_loop env (write_res env ?f) ?c2 = Some (r', c')" "0 \<le> r'"
      "find_state c' = Inr (?st2\<lparr>samples := len, sample_queue := 0\<rparr>)"
      "stream c' = Some \<lparr>sname = name, sread = rd, spos = len\<rparr>"
      by auto
    with step show ?thesis by auto
  qed
qed


lemma seek_then_read_frame:
  assumes "find_state c = Inr st" and "k = (if nfiles st \<le> pos st then 0 else pos st)"
    and "filearray_at st k = Some name" and "files env name = Some rd"
    and "rd (samples st) = Some n"
  shows "\<exists>c'. seek_then_read env c = (Some \<lparr>fsamples = n, fname = name, foffset = samples st\<rparr>, c') \<and>
           find_state c' = Inr (st\<lparr>pos := k\<rparr>) \<and>
           stream c' = Some \<lparr>sname = name, sread = rd, spos = samples st + n\<rparr>"
  using seek_opened [OF assms(1-4)] assms(5)
  by (simp add: seek_then_read_def ast_readframe_def emit_def Let_def)

lemma seek_then_read_end:
  assumes "find_state c = Inr st" and "k = (if nfiles st \<le> pos st then 0 else pos st)"
    and "filearray_at st k = Some name" and "files env name = Some rd"
    and "rd (samples st) = None"
  shows "\<exists>c'. seek_then_read env c = (None, c') \<and>
           find_state c' = Inr (st\<lparr>pos := k\<rparr>) \<and>
           stream c' = Some \<lparr>sname = name, sread = rd, spos = samples st\<rparr>"
  using seek_opened [OF assms(1-4)] assms(5)
  by (simp add: seek_then_read_def ast_readframe_def emit_def Let_def)

lemma first_frame_fresh:
  assumes fs: "find_state c = Inr st" and closed: "stream c = None"
    and inside: "pos st < nfiles st" and zero: "samples st = 0"
    and name: "filearray_at st (pos st) = Some name" and rd: "files env name = Some rd"
    and res: "resource_of rd len"
  shows "\<exists>n c1. playbg_readframe env c = (Some \<lparr>fsamples = n, fname = name, foffset = 0\<rparr>, c1) \<and>
           0 < n \<and> n \<le> len \<and> find_state c1 = Inr st \<and>
           stream c1 = Some \<lparr>sname = name, sread = rd, spos = n\<rparr>"
proof -
  from res obtain n where n: "rd 0 = Some n" "0 < n" "n \<le> len"
    by (fastforce simp: resource_of_def)
  have k: "pos st = (if nfiles st \<le> pos st then 0 else pos st)" using inside by simp
  from seek_then_read_frame [OF fs k name rd, of n] n(1) zero obtain c1 where
    "seek_then_read env c = (Some \<lparr>fsamples = n, fname = name, foffset = 0\<rparr>, c1)"
    "find_state c1 = Inr st" "stream c1 = Some \<lparr>sname = name, sread = rd, spos = n\<rparr>"
    by auto
  with closed n show ?thesis by (simp add: playbg_readframe_def)
qed

lemma first_frame_next:
  assumes fs: "find_state c = Inr st"
    and str: "stream c = Some \<lparr>sname = name, sread = rd, spos = samples st\<rparr>"
    and inside: "0 \<le> pos st" "pos st < nfiles st"
    and name: "filearray_at st (pos st) = Some name" and rd: "files env name = Some rd"
    and res: "resource_of rd (samples st)"
    and k: "k = (if nfiles st \<le> pos st + 1 then 0 else pos st + 1)"
    and name': "filearray_at st k = Some name'" and rd': "files env name' = Some rd'"
    and res': "resource_of rd' len"
  shows "\<exists>n c1. playbg_readframe env c = (Some \<lparr>fsamples = n, fname = name', foffset = 0\<rparr>, c1) \<and>
           0 < n \<and> n \<le> len \<and> find_state c1 = Inr (st\<lparr>pos := k, samples := 0\<rparr>) \<and>
           stream c1 = Some \<lparr>sname = name', sread = rd', spos = n\<rparr>"
proof -
  from res have ended: "rd (samples st) = None" by (simp add: resource_of_def)
  from res' obtain n where n: "rd' 0 = Some n" "0 < n" "n \<le> len"
    by (fastforce simp: resource_of_def)
  let ?c1 = "c\<lparr>trace := trace c @ [ReadEnd name]\<rparr>"
  have r1: "ast_readframe c = (None, ?c1)"
    using read_end [OF str] ended by simp
  have fs1: "find_state ?c1 = Inr st" using fs by simp
  have k1: "pos st = (if nfiles st \<le> pos st then 0 else pos st)" using inside by simp
  from seek_then_read_end [OF fs1 k1 name rd ended] obtain c2 where c2:
    "seek_then_read env ?c1 = (None, c2)" "find_state c2 = Inr st"
    by auto
  let ?st3 = "st\<lparr>pos := pos st + 1, samples := 0\<rparr>"
  let ?c3 = "c2\<lparr>datastore := Some (Datastore (Some ?st3))\<rparr>"
  have fs3: "find_state ?c3 = Inr ?st3" by simp
  have k3: "k = (if nfiles ?st3 \<le> pos ?st3 then 0 else pos ?st3)" using k by simp
  have name3: "filearray_at ?st3 k = Some name'" using name' by simp
  have n3: "rd' (samples ?st3) = Some n" using n(1) by simp
  from seek_then_read_frame [OF fs3 k3 name3 rd' n3] obtain c4 where c4:
    "seek_then_read env ?c3 = (Some \<lparr>fsamples = n, fname = name', foffset = 0\<rparr>, c4)"
    "find_state c4 = Inr (st\<lparr>pos := k, samples := 0\<rparr>)"
    "stream c4 = Some \<lparr>sname = name', sread = rd', spos = n\<rparr>"
    by auto
  have "playbg_readframe env c = (Some \<lparr>fsamples = n, fname = name', foffset = 0\<rparr>, c4)"
    using str r1 c2 c4(1) by (simp add: playbg_readframe_def upd_advance)
  with n c4 show ?thesis by blast
qed


lemma invocation_from_first_frame:
  assumes writes: "\<forall>f. 0 \<le> write_res env f" and res: "resource_of rd len"
    and fs: "find_state c = Inr st" and queue: "sample_queue st = len"
    and rf: "playbg_readframe env c = (Some \<lparr>fsamples = n, fname = name, foffset = 0\<rparr>, c1)"
    and n: "0 < n" "n \<le> len"
    and fs1: "find_state c1 = Inr st1" and st1: "samples st1 = 0" "sample_queue st1 = len"
    and str1: "stream c1 = Some \<lparr>sname = name, sread = rd, spos = n\<rparr>"
  shows "\<exists>r' c'. generator_loop env r c = Some (r', c') \<and> 0 \<le> r' \<and>
           find_state c' = Inr (st1\<lparr>samples := len, sample_queue := 0\<rparr>) \<and>
           stream c' = Some \<lparr>sname = name, sread = rd, spos = len\<rparr>"
proof -
  let ?f = "\<lparr>fsamples = n, fname = name, foffset = 0\<rparr>"
  let ?st2 = "st1\<lparr>samples := n, sample_queue := len - n\<rparr>"
  let ?c2 = "(account ?f c1)\<lparr>trace := trace c1 @ [Wrote ?f (write_res env ?f)]\<rparr>"
  from res have "0 < len" by (simp add: resource_of_def)
  moreover have w: "\<not> write_res env ?f < 0" using writes by (simp add: not_less)
  ultimately have step: "generator_loop env r c = generator_loop env (write_res env ?f) ?c2"
    using fs queue rf by (simp add: generator_loop_step)
  from res have lmax: "len \<le> 2147483647" by (simp add: resource_of_def)
  have a32: "int32 n = n" using n lmax by (intro int32_id) simp_all
  have q32: "int32 (len - n) = len - n" using n lmax by (intro int32_id) simp_all
  have fs2: "find_state ?c2 = Inr ?st2" using fs1 st1 a32 q32 by simp
  have str2: "stream ?c2 = Some \<lparr>sname = name, sread = rd, spos = samples ?st2\<rparr>"
    using str1 by simp
  from play_resource [OF writes res fs2 str2, of "write_res env ?f"] n writes
  obtain r' c' where "generator_loop env (write_res env ?f) ?c2 = Some (r', c')" "0 \<le> r'"
    "find_state c' = Inr (?st2\<lparr>samples := len, sample_queue := 0\<rparr>)"
    "stream c' = Some \<lparr>sname = name, sread = rd, spos = len\<rparr>"
    by auto
  with step show ?thesis by auto
qed

lemma filearray_at_names:
  "filearray st = map Some ns \<Longrightarrow> i < length ns \<Longrightarrow> filearray_at st (int i) = Some (ns ! i)"
  by (simp add: filearray_at_def)

lemma invocation_fresh:
  assumes writes: "\<forall>f. 0 \<le> write_res env f" and play: "playable env ns ds" and ne: "ns \<noteq> []"
    and fr: "fresh ns c"
  shows "\<exists>r c'. playbg_generator env c (ds ! 0) = Some (r, c') \<and> 0 \<le> r \<and>
           finished env ns ds 0 c'"
proof -
  from fr obtain st where st: "find_state c = Inr st" "stream c = None"
    "filearray st = map Some ns" "nfiles st = int (length ns)" "pos st = 0" "samples st = 0"
    "sample_queue st = 0"
    by (auto simp: fresh_def split: sum.splits)
  from play ne obtain rd where rd: "files env (ns ! 0) = Some rd" "resource_of rd (ds ! 0)"
    by (auto simp: playable_def)
  let ?st0 = "st\<lparr>sample_queue := ds ! 0\<rparr>"
  let ?c0 = "c\<lparr>datastore := Some (Datastore (Some ?st0))\<rparr>"
  have q32: "int32 (ds ! 0) = ds ! 0"
    using rd(2) by (intro int32_id) (simp_all add: resource_of_def)
  have g: "playbg_generator env c (ds ! 0) = generator_loop env 0 ?c0"
    using generator_with_state [OF st(1), of env "ds ! 0"] st(7) q32 by simp
  have fs0: "find_state ?c0 = Inr ?st0" by simp
  have name: "filearray_at ?st0 (pos ?st0) = Some (ns ! 0)"
    using filearray_at_names [of st ns 0] st(3,5) ne by simp
  from first_frame_fresh [OF fs0 _ _ _ name rd] st ne obtain n c1 where f:
    "playbg_readframe env ?c0 = (Some \<lparr>fsamples = n, fname = ns ! 0, foffset = 0\<rparr>, c1)"
    "0 < n" "n \<le> ds ! 0" "find_state c1 = Inr ?st0"
    "stream c1 = Some \<lparr>sname = ns ! 0, sread = rd, spos = n\<rparr>"
    by auto
  from invocation_from_first_frame [OF writes rd(2) fs0 _ f(1,2,3,4) _ _ f(5), of 0] st
  obtain r' c' where r: "generator_loop env 0 ?c0 = Some (r', c')" "0 \<le> r'"
    "find_state c' = Inr (?st0\<lparr>samples := ds ! 0, sample_queue := 0\<rparr>)"
    "stream c' = Some \<lparr>sname = ns ! 0, sread = rd, spos = ds ! 0\<rparr>"
    by auto
  have "finished env ns ds 0 c'"
    using r(3,4) st rd(1) by (simp add: finished_def)
  with g r(1,2) show ?thesis by auto
qed

lemma invocation_next:
  assumes writes: "\<forall>f. 0 \<le> write_res env f" and play: "playable env ns ds"
    and j: "j < length ns" and fin: "finished env ns ds j c"
  shows "\<exists>r c'. playbg_generator env c (ds ! (Suc j mod length ns)) = Some (r, c') \<and> 0 \<le> r \<and>
           finished env ns ds (Suc j mod length ns) c'"
proof -
  let ?k = "Suc j mod length ns"
  from j have "0 < length ns" by arith
  then have kl: "?k < length ns" by simp
  from play j obtain rd where rd: "files env (ns ! j) = Some rd" "resource_of rd (ds ! j)"
    by (auto simp: playable_def)
  from play kl obtain rd' where rd': "files env (ns ! ?k) = Some rd'" "resource_of rd' (ds ! ?k)"
    by (auto simp: playable_def)
  from fin rd(1) obtain st where st: "find_state c = Inr st"
    "filearray st = map Some ns" "nfiles st = int (length ns)" "pos st = int j"
    "samples st = ds ! j" "sample_queue st = 0"
    "stream c = Some \<lparr>sname = ns ! j, sread = rd, spos = ds ! j\<rparr>"
    by (auto simp: finished_def split: sum.splits)
  let ?st0 = "st\<lparr>sample_queue := ds ! ?k\<rparr>"
  let ?c0 = "c\<lparr>datastore := Some (Datastore (Some ?st0))\<rparr>"
  have q32: "int32 (ds ! ?k) = ds ! ?k"
    using rd'(2) by (intro int32_id) (simp_all add: resource_of_def)
  have g: "playbg_generator env c (ds ! ?k) = generator_loop env 0 ?c0"
    using generator_with_state [OF st(1), of env "ds ! ?k"] st(6) q32 by simp
  have fs0: "find_state ?c0 = Inr ?st0" by simp
  have str0: "stream ?c0 = Some \<lparr>sname = ns ! j, sread = rd, spos = samples ?st0\<rparr>"
    using st(5,7) by simp
  have name: "filearray_at ?st0 (pos ?st0) = Some (ns ! j)"
    using filearray_at_names [of st ns j] st(2,4) j by simp
  have res0: "resource_of rd (samples ?st0)" using rd(2) st(5) by simp
  have k: "int ?k = (if nfiles ?st0 \<le> pos ?st0 + 1 then 0 else pos ?st0 + 1)"
  proof (cases "Suc j = length ns")
    case True
    then show ?thesis using st(3,4) by simp
  next
    case False
    with j have "Suc j < length ns" by simp
    then show ?thesis using st(3,4) by simp
  qed
  have name': "filearray_at ?st0 (int ?k) = Some (ns ! ?k)"
    using filearray_at_names [of st ns ?k] st(2) kl by simp
  have inside: "0 \<le> pos ?st0" "pos ?st0 < nfiles ?st0" using st(3,4) j by simp_all
  from first_frame_next [OF fs0 str0 inside name rd(1) res0 k name' rd']
  obtain n c1 where f:
    "playbg_readframe env ?c0 = (Some \<lparr>fsamples = n, fname = ns ! ?k, foffset = 0\<rparr>, c1)"
    "0 < n" "n \<le> ds ! ?k" "find_state c1 = Inr (?st0\<lparr>pos := int ?k, samples := 0\<rparr>)"
    "stream c1 = Some \<lparr>sname = ns ! ?k, sread = rd', spos = n\<rparr>"
    by blast
  from invocation_from_first_frame [OF writes rd'(2) fs0 _ f(1,2,3,4) _ _ f(5), of 0]
  obtain r' c' where r: "generator_loop env 0 ?c0 = Some (r', c')" "0 \<le> r'"
    "find_state c' = Inr (?st0\<lparr>pos := int ?k, samples := 0\<rparr>\<lparr>samples := ds ! ?k, sample_queue := 0\<rparr>)"
    "stream c' = Some \<lparr>sname = ns ! ?k, sread = rd', spos = ds ! ?k\<rparr>"
    by auto
  have "finished env ns ds ?k c'"
    using r(3,4) st rd'(1) by (simp add: finished_def)
  with g r(1,2) show ?thesis by auto
qed


lemma run_from_finished:
  assumes writes: "\<forall>f. 0 \<le> write_res env f" and play: "playable env ns ds"
  shows "j < length ns \<Longrightarrow> finished env ns ds j c \<Longrightarrow>
    \<exists>rs c'. run_generator env c (map (\<lambda>i. ds ! ((j + 1 + i) mod length ns)) [0..<m]) =
        Some (rs, c') \<and>
      map snd rs = map (\<lambda>i. Some (int ((j + 1 + i) mod length ns))) [0..<m] \<and>
      (\<forall>r\<in>set rs. 0 \<le> fst r)"
proof (induction m arbitrary: j c)
  case 0
  then show ?case by simp
next
  case (Suc m)
  let ?N = "length ns"
  let ?k = "Suc j mod ?N"
  from Suc.prems(1) have "0 < ?N" by arith
  then have kl: "?k < ?N" by simp
  from invocation_next [OF writes play Suc.prems] obtain r c1 where c1:
    "playbg_generator env c (ds ! ?k) = Some (r, c1)" "0 \<le> r" "finished env ns ds ?k c1"
    by blast
  from c1(3) have ix: "state_field pos c1 = Some (int ?k)"
    by (auto simp: finished_def state_field_def split: sum.splits)
  from Suc.IH [OF kl c1(3)] obtain rs c' where rs:
    "run_generator env c1 (map (\<lambda>i. ds ! ((?k + 1 + i) mod ?N)) [0..<m]) = Some (rs, c')"
    "map snd rs = map (\<lambda>i. Some (int ((?k + 1 + i) mod ?N))) [0..<m]"
    "\<forall>r\<in>set rs. 0 \<le> fst r"
    by blast
  have shift: "(?k + 1 + i) mod ?N = (j + 1 + Suc i) mod ?N" for i
  proof -
    have "(?k + (1 + i)) mod ?N = (Suc j + (1 + i)) mod ?N" by (rule mod_add_left_eq)
    then show ?thesis by (simp add: add.assoc)
  qed
  have shift': "Suc (Suc j mod ?N + i) mod ?N = Suc (Suc (j + i)) mod ?N" for i
    using shift [of i] by simp
  have split: "[0..<Suc m] = 0 # map Suc [0..<m]"
    by (simp add: upt_conv_Cons map_Suc_upt del: upt_Suc)
  have reqs: "map (\<lambda>i. ds ! ((j + 1 + i) mod ?N)) [0..<Suc m] =
      ds ! ?k # map (\<lambda>i. ds ! ((?k + 1 + i) mod ?N)) [0..<m]"
    unfolding split by (simp add: shift' comp_def del: upt_Suc)
  have idx: "map (\<lambda>i. Some (int ((j + 1 + i) mod ?N))) [0..<Suc m] =
      Some (int ?k) # map (\<lambda>i. Some (int ((?k + 1 + i) mod ?N))) [0..<m]"
    unfolding split by (simp add: shift' comp_def del: upt_Suc)
  have "run_generator env c (map (\<lambda>i. ds ! ((j + 1 + i) mod ?N)) [0..<Suc m]) =
      Some ((r, Some (int ?k)) # rs, c')"
    unfolding reqs using c1(1) rs(1) ix by simp
  moreover have "map snd ((r, Some (int ?k)) # rs) =
      map (\<lambda>i. Some (int ((j + 1 + i) mod ?N))) [0..<Suc m]"
    unfolding idx using rs(2) by simp
  moreover have "\<forall>x\<in>set ((r, Some (int ?k)) # rs). 0 \<le> fst x"
    using c1(2) rs(3) by simp
  ultimately show ?case by blast
qed

lemma requests_rotate:
  assumes "ds \<noteq> []"
  shows "ds @ [ds ! 0] = ds ! 0 # map (\<lambda>i. ds ! ((0 + 1 + i) mod length ds)) [0..<length ds]"
proof -
  have "tl ds @ [ds ! 0] = map (\<lambda>i. ds ! ((0 + 1 + i) mod length ds)) [0..<length ds]"
  proof (rule nth_equalityI)
    show "length (tl ds @ [ds ! 0]) =
        length (map (\<lambda>i. ds ! ((0 + 1 + i) mod length ds)) [0..<length ds])"
      using assms by (cases ds) auto
  next
    fix i assume "i < length (tl ds @ [ds ! 0])"
    then have i: "i < length ds" using assms by (cases ds) auto
    show "(tl ds @ [ds ! 0]) ! i =
        map (\<lambda>i. ds ! ((0 + 1 + i) mod length ds)) [0..<length ds] ! i"
    proof (cases "Suc i = length ds")
      case True
      then have "length ds - Suc 0 = i" by simp
      then show ?thesis using i True by (simp add: nth_append)
    next
      case False
      with i have lt: "Suc i < length ds" by simp
      then have "i < length ds - Suc 0" by arith
      then show ?thesis using i lt by (simp add: nth_append nth_tl)
    qed
  qed
  moreover have "ds = ds ! 0 # tl ds" using assms by (cases ds) auto
  ultimately show ?thesis by (metis append_Cons)
qed

lemma indices_rotate:
  assumes "0 < n"
  shows "map (\<lambda>i. Some (int i)) [0..<n] @ [Some 0] =
     Some 0 # map (\<lambda>i. Some (int ((0 + 1 + i) mod n))) [0..<n]"
proof (rule nth_equalityI)
  show "length (map (\<lambda>i. Some (int i)) [0..<n] @ [Some 0]) =
      length (Some 0 # map (\<lambda>i. Some (int ((0 + 1 + i) mod n))) [0..<n])"
    by simp
next
  fix i assume "i < length (map (\<lambda>i. Some (int i)) [0..<n] @ [Some 0])"
  then have i: "i \<le> n" by simp
  show "(map (\<lambda>i. Some (int i)) [0..<n] @ [Some 0]) ! i =
      (Some 0 # map (\<lambda>i. Some (int ((0 + 1 + i) mod n))) [0..<n]) ! i"
  proof (cases i)
    case 0
    then show ?thesis using assms by (simp add: nth_append)
  next
    case (Suc k)
    show ?thesis
    proof (cases "i = n")
      case True
      then show ?thesis using Suc assms by (simp add: nth_append)
    next
      case False
      with i have "i < n" by simp
      then show ?thesis using Suc by (simp add: nth_append)
    qed
  qed
qed

text \<open>
  Claim C1, as amended. For every list of \<open>N \<ge> 1\<close> readable resources, Start followed by
  generator invocations that each request one resource's full duration leaves the index
  at \<open>0, 1, ..., N-1\<close> after the first \<open>N\<close> invocations (resource by resource), and one
  further invocation, requesting the first resource's duration again, wraps the index to
  0: the wraparound takes \<open>N + 1\<close> invocations, because the index only advances when a
  frame is requested after the current resource is exhausted. Every invocation returns
  without error.
\<close>
theorem index_visits_in_order:
  "ns \<noteq> [] \<and> (\<forall>x\<in>set ns. CHR ''&'' \<notin> set x \<and> strdup_ok env x) \<and> join_amp ns \<noteq> [] \<and>
   datastore_alloc_ok env \<and> state_alloc_ok env \<and> filearray_alloc_ok env \<and>
   stream c0 = None \<and> playable env ns ds \<and> (\<forall>f. 0 \<le> write_res env f) \<longrightarrow>
   (\<exists>c. playbg_exec_start env c0 (Some (join_amp ns)) = (0, c) \<and>
      state_field pos c = Some 0 \<and>
      (\<exists>rs c'. run_generator env c (ds @ [ds ! 0]) = Some (rs, c') \<and>
         map snd rs = map (\<lambda>i. Some (int i)) [0..<length ns] @ [Some 0] \<and>
         (\<forall>r\<in>set rs. 0 \<le> fst r)))"
proof (intro impI, elim conjE)
  assume ne: "ns \<noteq> []" and names: "\<forall>x\<in>set ns. CHR ''&'' \<notin> set x \<and> strdup_ok env x"
    and nonempty: "join_amp ns \<noteq> []"
    and allocs: "datastore_alloc_ok env" "state_alloc_ok env" "filearray_alloc_ok env"
    and closed: "stream c0 = None" and play: "playable env ns ds"
    and writes: "\<forall>f. 0 \<le> write_res env f"
  from play have len: "length ds = length ns" by (simp add: playable_def)
  with ne have dne: "ds \<noteq> []" by auto
  from ne have npos: "0 < length ns" by simp
  from start_accepted [OF ne names nonempty allocs, of c0] closed obtain c where c:
    "playbg_exec_start env c0 (Some (join_amp ns)) = (0, c)"
    "find_state c =
         Inr \<lparr>filearray = map Some ns, pos = 0, nfiles = int (length ns),
              origwfmt = writeformat c, samples = 0, sample_queue = 0\<rparr>"
    "stream c = None"
    by auto
  have fr: "fresh ns c" using c(2,3) by (simp add: fresh_def)
  have ix0: "state_field pos c = Some 0" using c(2) by (simp add: state_field_def)
  from invocation_fresh [OF writes play ne fr] obtain r c1 where c1:
    "playbg_generator env c (ds ! 0) = Some (r, c1)" "0 \<le> r" "finished env ns ds 0 c1"
    by blast
  from c1(3) have ix1: "state_field pos c1 = Some 0"
    by (auto simp: finished_def state_field_def split: sum.splits)
  from run_from_finished [OF writes play npos c1(3), of "length ns"] obtain rs c' where rs:
    "run_generator env c1 (map (\<lambda>i. ds ! ((0 + 1 + i) mod length ns)) [0..<length ns]) =
       Some (rs, c')"
    "map snd rs = map (\<lambda>i. Some (int ((0 + 1 + i) mod length ns))) [0..<length ns]"
    "\<forall>r\<in>set rs. 0 \<le> fst r"
    by blast
  have "run_generator env c (ds @ [ds ! 0]) = Some ((r, Some 0) # rs, c')"
    unfolding requests_rotate [OF dne] len using c1(1) rs(1) ix1 by simp
  moreover have "map snd ((r, Some 0) # rs) = map (\<lambda>i. Some (int i)) [0..<length ns] @ [Some 0]"
    unfolding indices_rotate [OF npos] using rs(2) by simp
  moreover have "\<forall>x\<in>set ((r, Some 0) # rs). 0 \<le> fst x" using c1(2) rs(3) by simp
  ultimately have "\<exists>rs c'. run_generator env c (ds @ [ds ! 0]) = Some (rs, c') \<and>
         map snd rs = map (\<lambda>i. Some (int i)) [0..<length ns] @ [Some 0] \<and>
         (\<forall>r\<in>set rs. 0 \<le> fst r)"
    by blast
  with c(1) ix0 show "\<exists>c. playbg_exec_start env c0 (Some (join_amp ns)) = (0, c) \<and>
      state_field pos c = Some 0 \<and>
      (\<exists>rs c'. run_generator env c (ds @ [ds ! 0]) = Some (rs, c') \<and>
         map snd rs = map (\<lambda>i. Some (int i)) [0..<length ns] @ [Some 0] \<and>
         (\<forall>r\<in>set rs. 0 \<le> fst r))"
    by blast
qed


lemma pcm_resource:
  "0 < len \<Longrightarrow> len \<le> 2147483647 \<Longrightarrow> 0 < fsz \<Longrightarrow> resource_of (pcm len fsz) len"
  by (auto simp: resource_of_def pcm_def)

theorem index_visits_in_order_witness:
  "playable (demo_host [(''a.wav'', 100), (''b.wav'', 100)]) [''a.wav'', ''b.wav''] [100, 100] \<and>
   (\<exists>c. playbg_exec_start (demo_host [(''a.wav'', 100), (''b.wav'', 100)]) idle_channel
          (Some ''a.wav&b.wav'') = (0, c) \<and>
      state_field pos c = Some 0 \<and>
      (\<exists>rs c'. run_generator (demo_host [(''a.wav'', 100), (''b.wav'', 100)]) c [100, 100, 100] =
           Some (rs, c') \<and>
         map snd rs = [Some 0, Some 1, Some 0]))"
proof -
  let ?h = "demo_host [(''a.wav'', 100), (''b.wav'', 100)]"
  have r: "resource_of (pcm 100 20) 100" by (rule pcm_resource) simp_all
  have f: "files ?h ''a.wav'' = Some (pcm 100 20)" "files ?h ''b.wav'' = Some (pcm 100 20)"
    by (simp_all add: demo_host_def)
  have p: "playable ?h [''a.wav'', ''b.wav''] [100, 100]"
    using r f by (simp add: playable_def less_Suc_eq numeral_2_eq_2)
  have h: "datastore_alloc_ok ?h" "state_alloc_ok ?h" "filearray_alloc_ok ?h"
    "\<And>x. strdup_ok ?h x" "\<And>f. 0 \<le> write_res ?h f" "stream idle_channel = None"
    by (simp_all add: demo_host_def idle_channel_def)
  have l: "map (\<lambda>i. Some (int i)) [0..<length [''a.wav'', ''b.wav'']] @ [Some 0] =
      [Some 0, Some 1, Some 0]"
    by (simp add: upt_conv_Cons)
  from index_visits_in_order [of "[''a.wav'', ''b.wav'']" ?h idle_channel "[100, 100]", unfolded l]
    p h
  have "\<exists>c. playbg_exec_start ?h idle_channel (Some ''a.wav&b.wav'') = (0, c) \<and>
      state_field pos c = Some 0 \<and>
      (\<exists>rs c'. run_generator ?h c [100, 100, 100] = Some (rs, c') \<and>
         map snd rs = [Some 0, Some 1, Some 0] \<and>
         (\<forall>r\<in>set rs. 0 \<le> fst r))"
    by (simp del: run_generator.simps upt_Suc)
  then obtain c rs c' where
    "playbg_exec_start ?h idle_channel (Some ''a.wav&b.wav'') = (0, c)"
    "state_field pos c = Some 0" "run_generator ?h c [100, 100, 100] = Some (rs, c')"
    "map snd rs = [Some 0, Some 1, Some 0]"
    by - (elim exE conjE, rule that)
  then have "\<exists>c. playbg_exec_start ?h idle_channel (Some ''a.wav&b.wav'') = (0, c) \<and>
      state_field pos c = Some 0 \<and>
      (\<exists>rs c'. run_generator ?h c [100, 100, 100] = Some (rs, c') \<and>
         map snd rs = [Some 0, Some 1, Some 0])"
    by (intro exI [of _ c] conjI exI [of _ rs] exI [of _ c'])
  with p show ?thesis by (rule conjI)
qed

text \<open>
  Claim C1 as stated fails: with two resources of 100 samples, Start and two invocations
  of 100 samples leave the index at 0 and then at 1; it has not returned to 0, and the
  first resource is not opened again after the second.
\<close>

theorem index_after_n_invocations:
  "state_field pos (start_on (demo_host [(''a.wav'', 100), (''b.wav'', 100)]) ''a.wav&b.wav'') =
     Some 0 \<and>
   map_option (map snd \<circ> fst)
     (run_generator (demo_host [(''a.wav'', 100), (''b.wav'', 100)])
        (start_on (demo_host [(''a.wav'', 100), (''b.wav'', 100)]) ''a.wav&b.wav'') [100, 100]) =
     Some [Some 0, Some 1] \<and>
   map_option (opened \<circ> trace \<circ> snd)
     (run_generator (demo_host [(''a.wav'', 100), (''b.wav'', 100)])
        (start_on (demo_host [(''a.wav'', 100), (''b.wav'', 100)]) ''a.wav&b.wav'') [100, 100]) =
     Some [''a.wav'', ''a.wav'', ''b.wav'']"
  by (simp add: start_on_ab) (simp add: model_defs generator_loop.simps)

section \<open>An unreadable entry\<close>

lemma start_on_abc:
  "start_on (demo_host fs) ''a.wav&b.wav&c.wav'' =
     \<lparr>datastore = Some (Datastore (Some \<lparr>filearray = [Some ''a.wav'', Some ''b.wav'', Some ''c.wav''],
         pos = 0, nfiles = 3, origwfmt = 64, samples = 0, sample_queue = 0\<rparr>)),
      stream = None, writeformat = 64, generatordata = True, trace = []\<rparr>"
  by (simp add: model_defs eval_nat_numeral)

text \<open>
  Claim C4, on the code. With the list \<open>a.wav&b.wav\<close> where \<open>a.wav\<close> cannot be opened, the
  first generator invocation after Start returns \<open>-1\<close> with nothing opened and nothing
  written: the failed seek advances the index to 1, the frame producer advances it again
  to 2, the second seek wraps to 0 and fails on \<open>a.wav\<close> once more. With a third entry the
  same double advance skips the readable \<open>b.wav\<close> and plays \<open>c.wav\<close>. With the unreadable
  entry last (\<open>a.wav\<close> readable, \<open>b.wav\<close> not), the invocation that exhausts \<open>a.wav\<close>
  returns \<open>-1\<close> as well.
\<close>

theorem unreadable_entry_aborts:
  "playbg_generator (demo_host [(''b.wav'', 100)])
       (start_on (demo_host [(''b.wav'', 100)]) ''a.wav&b.wav'') 160 =
     Some (- 1,
       \<lparr>datastore = Some (Datastore (Some
          \<lparr>filearray = [Some ''a.wav'', Some ''b.wav''], pos = 1, nfiles = 2, origwfmt = 64,
           samples = 0, sample_queue = 160\<rparr>)),
        stream = None, writeformat = 64, generatordata = True,
        trace = [Warn (UnableToOpen ''a.wav''), Warn (UnableToOpen ''a.wav'')]\<rparr>) \<and>
   map_option fst
     (playbg_generator (demo_host [(''b.wav'', 100), (''c.wav'', 100)])
        (start_on (demo_host [(''b.wav'', 100), (''c.wav'', 100)]) ''a.wav&b.wav&c.wav'') 100) =
     Some 0 \<and>
   map_option (opened \<circ> trace \<circ> snd)
     (playbg_generator (demo_host [(''b.wav'', 100), (''c.wav'', 100)])
        (start_on (demo_host [(''b.wav'', 100), (''c.wav'', 100)]) ''a.wav&b.wav&c.wav'') 100) =
     Some [''c.wav''] \<and>
   map_option fst
     (playbg_generator (demo_host [(''a.wav'', 100)])
        (start_on (demo_host [(''a.wav'', 100)]) ''a.wav&b.wav'') 160) = Some (- 1)"
  by (simp add: start_on_ab start_on_abc) (simp add: model_defs generator_loop.simps)

end
